theory Spec2Isabelle
  imports Main "HOL-Library.Word"
begin

unbundle bit_operations_syntax

section \<open>Two-phase commit: the global transaction table of twophase.c\<close>

subsection \<open>Basic types\<close>

type_synonym byte = "8 word"
type_synonym TransactionId = "32 word"
type_synonym Oid = "32 word"
type_synonym TimestampTz = "64 word"
type_synonym XLogRecPtr = nat
type_synonym BackendId = int

definition InvalidBackendId :: BackendId where
  "InvalidBackendId = - 1"

definition InvalidXLogRecPtr :: XLogRecPtr where
  "InvalidXLogRecPtr = 0"

definition InvalidTransactionId :: TransactionId where
  "InvalidTransactionId = 0"

definition GIDSIZE :: nat where
  "GIDSIZE = 200"

definition PGPROC_MAX_CACHED_SUBXIDS :: nat where
  "PGPROC_MAX_CACHED_SUBXIDS = 64"

datatype GpRoleValue = GP_ROLE_UTILITY | GP_ROLE_DISPATCH | GP_ROLE_EXECUTE

text \<open>
  Every \<open>ereport(ERROR, ...)\<close>, \<open>elog(ERROR, ...)\<close> and \<open>elog(PANIC, ...)\<close> of the file is a
  value of this type. The constructor names follow the conditions that raise them:
  \<^item> \<open>IdentifierTooLong\<close>: "transaction identifier ... is too long";
  \<^item> \<open>FeatureDisabled\<close>: "prepared transactions are disabled";
  \<^item> \<open>DuplicateIdentifier\<close>: "transaction identifier ... is already in use";
  \<^item> \<open>CapacityExhausted\<close>: "maximum number of prepared transactions reached";
  \<^item> \<open>Busy\<close>: "prepared transaction with identifier ... is busy";
  \<^item> \<open>PermissionDenied\<close>: "permission denied to finish prepared transaction";
  \<^item> \<open>OtherDatabase\<close>: "prepared transaction belongs to another database";
  \<^item> \<open>NotFound\<close>: "prepared transaction with identifier ... does not exist";
  \<^item> \<open>CorruptRecord\<close>: "xlog record is invalid" (\<open>ERRCODE_DATA_CORRUPTED\<close>);
  \<^item> \<open>RecordTooLarge\<close>: "two-phase state file maximum length exceeded";
  \<^item> \<open>GXactNotInArray\<close>: "failed to find ... in GlobalTransaction array";
  \<^item> \<open>AlreadyCommitted\<close>: the PANIC "cannot abort transaction ..., it was already committed";
  \<^item> \<open>InvalidMemoryAccess\<close>: no error report at all, but a read through a null pointer or
    beyond the end of a buffer, where the C program has no defined behaviour.
\<close>

datatype error =
    IdentifierTooLong
  | FeatureDisabled
  | DuplicateIdentifier
  | CapacityExhausted
  | Busy
  | PermissionDenied
  | OtherDatabase
  | NotFound
  | CorruptRecord
  | RecordTooLarge
  | GXactNotInArray
  | AlreadyCommitted
  | InvalidMemoryAccess

subsection \<open>Shared-memory structures\<close>

datatype LocalDistribXactState =
    LOCALDISTRIBXACT_STATE_NONE
  | LOCALDISTRIBXACT_STATE_ACTIVE
  | LOCALDISTRIBXACT_STATE_PREPARED

record LocalDistribXactData =
  ldx_state :: LocalDistribXactState
  distribTimeStamp :: "32 word"
  distribXid :: "32 word"

text \<open>
  \<open>struct GlobalTransactionData\<close>. The \<open>next\<close> link is not a field here: the free list is
  the list \<open>freeGXacts\<close> of the state below. A \<open>GlobalTransaction\<close> (a pointer into the
  array \<open>gxacts\<close> laid out by \<open>TwoPhaseShmemInit\<close>) is the index of the struct in
  that array.
\<close>

record GlobalTransactionData =
  pgprocno :: nat
  dummyBackendId :: int
  prepared_at :: TimestampTz
  prepare_begin_lsn :: XLogRecPtr
  prepare_lsn :: XLogRecPtr
  owner :: Oid
  locking_backend :: BackendId
  valid :: bool
  gid :: string

type_synonym GlobalTransaction = nat

text \<open>
  The fields of the dummy \<open>PGPROC\<close> and \<open>PGXACT\<close> of a prepared transaction that
  twophase.c writes and reads back: \<open>proc_xid\<close> is \<open>pgxact->xid\<close>, \<open>subxids\<close> is
  \<open>proc->subxids.xids[0 .. pgxact->nxids)\<close>.
\<close>

record PGPROC =
  proc_xid :: TransactionId
  databaseId :: Oid
  roleId :: Oid
  overflowed :: bool
  subxids :: "TransactionId list"
  localDistribXactData :: LocalDistribXactData

text \<open>
  The state the functions of this part work on. \<open>prepXacts\<close> is
  \<open>TwoPhaseState->prepXacts[0 .. numPrepXacts)\<close>, so \<open>numPrepXacts\<close> is its length.
  \<open>procArray\<close> lists the \<open>pgprocno\<close> of the dummy processes entered by
  \<open>ProcArrayAdd\<close>. The remaining fields are the per-backend globals.
\<close>

record twophase_state =
  max_prepared_xacts :: nat
  MaxBackends :: int
  freeGXacts :: "GlobalTransaction list"
  prepXacts :: "GlobalTransaction list"
  gxacts :: "GlobalTransaction \<Rightarrow> GlobalTransactionData"
  allProcs :: "nat \<Rightarrow> PGPROC"
  procArray :: "nat list"
  MyLockedGxact :: "GlobalTransaction option"
  twophaseExitRegistered :: bool
  MyBackendId :: BackendId
  MyDatabaseId :: Oid
  Gp_role :: GpRoleValue

definition numPrepXacts :: "twophase_state \<Rightarrow> nat" where
  "numPrepXacts s = length (prepXacts s)"

subsection \<open>Initialization of shared memory\<close>

text \<open>
  \<open>TwoPhaseShmemInit\<close>: the loop pushes \<open>gxacts[0]\<close>, \<open>gxacts[1]\<close>, ... on the free list,
  so the last struct ends up at its head. \<open>PreparedXactProcs[i].pgprocno\<close> is taken to be
  \<open>i\<close>.
\<close>

fun TwoPhaseShmemInit_loop :: "nat \<Rightarrow> twophase_state \<Rightarrow> twophase_state" where
  "TwoPhaseShmemInit_loop 0 s = s"
| "TwoPhaseShmemInit_loop (Suc i) s =
     (let s1 = TwoPhaseShmemInit_loop i s in
      s1\<lparr>freeGXacts := i # freeGXacts s1,
         gxacts := (gxacts s1)(i := (gxacts s1 i)\<lparr>pgprocno := i,
                      dummyBackendId := MaxBackends s1 + 1 + int i\<rparr>)\<rparr>)"

definition TwoPhaseShmemInit :: "twophase_state \<Rightarrow> twophase_state" where
  "TwoPhaseShmemInit s =
     TwoPhaseShmemInit_loop (max_prepared_xacts s) (s\<lparr>freeGXacts := [], prepXacts := []\<rparr>)"

subsection \<open>Reserving, validating, locking and removing entries\<close>

text \<open>
  \<open>GXactLoadSubxactData\<close>: at most \<open>PGPROC_MAX_CACHED_SUBXIDS\<close> children are cached in the
  dummy process.
\<close>

definition GXactLoadSubxactData ::
  "GlobalTransaction \<Rightarrow> TransactionId list \<Rightarrow> twophase_state \<Rightarrow> twophase_state" where
  "GXactLoadSubxactData gxact children s =
     (let p = pgprocno (gxacts s gxact);
          proc = allProcs s p;
          proc1 = (if length children > PGPROC_MAX_CACHED_SUBXIDS
                   then proc\<lparr>overflowed := True\<rparr> else proc);
          n = min (length children) PGPROC_MAX_CACHED_SUBXIDS;
          proc2 = (if n > 0 then proc1\<lparr>subxids := take n children\<rparr> else proc1)
      in s\<lparr>allProcs := (allProcs s)(p := proc2)\<rparr>)"

text \<open>
  \<open>MarkAsPreparing\<close>. An \<open>ereport(ERROR)\<close> leaves the function at once; the state returned
  with the error is the state at that moment. \<open>strlen\<close>, \<open>strcmp\<close> and \<open>strcpy\<close> on the
  C strings are \<open>length\<close>, equality and assignment on \<open>string\<close>.
\<close>

definition MarkAsPreparing ::
  "TransactionId \<Rightarrow> LocalDistribXactData \<Rightarrow> string \<Rightarrow> TimestampTz \<Rightarrow> Oid \<Rightarrow> Oid \<Rightarrow> XLogRecPtr
     \<Rightarrow> twophase_state \<Rightarrow> (error + GlobalTransaction) \<times> twophase_state" where
  "MarkAsPreparing xid localDistribXactRef gid' prepared_at' owner' databaseid xlogrecptr s0 =
     (let idlen = length gid';
          s = s0\<lparr>twophaseExitRegistered := True\<rparr>
      in if idlen \<ge> GIDSIZE then (Inl IdentifierTooLong, s)
         else if max_prepared_xacts s = 0 then (Inl FeatureDisabled, s)
         else if list_ex (\<lambda>g. gid (gxacts s g) = gid') (prepXacts s)
           then (Inl DuplicateIdentifier, s)
         else (case freeGXacts s of
             [] \<Rightarrow> (Inl CapacityExhausted, s)
           | gxact # rest \<Rightarrow>
               (let p = pgprocno (gxacts s gxact);
                    proc = \<lparr>proc_xid = xid, databaseId = databaseid, roleId = owner',
                            overflowed = False, subxids = [],
                            localDistribXactData = localDistribXactRef\<rparr>;
                    g = (gxacts s gxact)\<lparr>prepared_at := prepared_at',
                            prepare_lsn := 0,
                            prepare_begin_lsn := xlogrecptr,
                            owner := owner',
                            locking_backend := MyBackendId s,
                            valid := False,
                            gid := gid'\<rparr>
                in (Inr gxact,
                    s\<lparr>freeGXacts := rest,
                      allProcs := (allProcs s)(p := proc),
                      gxacts := (gxacts s)(gxact := g),
                      prepXacts := prepXacts s @ [gxact],
                      MyLockedGxact := Some gxact\<rparr>))))"

text \<open>
  \<open>MarkAsPrepared\<close>: the entry becomes valid, the distributed state of its dummy process
  becomes PREPARED, and the dummy process enters the ProcArray.
\<close>

definition MarkAsPrepared :: "GlobalTransaction \<Rightarrow> twophase_state \<Rightarrow> twophase_state" where
  "MarkAsPrepared gxact s =
     (let p = pgprocno (gxacts s gxact);
          proc = allProcs s p;
          ldx = (localDistribXactData proc)\<lparr>ldx_state := LOCALDISTRIBXACT_STATE_PREPARED\<rparr>
      in s\<lparr>gxacts := (gxacts s)(gxact := (gxacts s gxact)\<lparr>valid := True\<rparr>),
           allProcs := (allProcs s)(p := proc\<lparr>localDistribXactData := ldx\<rparr>),
           procArray := procArray s @ [p]\<rparr>)"

text \<open>
  \<open>PostPrepare_Twophase\<close>: the preparing backend gives up its lock on the entry. The
  source writes through \<open>MyLockedGxact\<close> without a test; when the backend holds no entry
  this is a write through the null pointer.
\<close>

definition PostPrepare_Twophase :: "twophase_state \<Rightarrow> (error + unit) \<times> twophase_state" where
  "PostPrepare_Twophase s =
     (case MyLockedGxact s of
        None \<Rightarrow> (Inl InvalidMemoryAccess, s)
      | Some gxact \<Rightarrow>
          (Inr (),
           s\<lparr>gxacts := (gxacts s)(gxact := (gxacts s gxact)\<lparr>locking_backend := InvalidBackendId\<rparr>),
             MyLockedGxact := None\<rparr>))"

text \<open>
  The loop of \<open>LockGXact\<close> over \<open>prepXacts[i]\<close>, \<open>i = 0, 1, ...\<close>: entries that are not
  valid or carry another GID are skipped; the first other entry decides the call.
  \<open>superuser_arg\<close> belongs to the catalog and is a parameter.
\<close>

fun LockGXact_loop ::
  "(Oid \<Rightarrow> bool) \<Rightarrow> string \<Rightarrow> Oid \<Rightarrow> twophase_state \<Rightarrow> GlobalTransaction list
     \<Rightarrow> ((error + GlobalTransaction) \<times> twophase_state) option" where
  "LockGXact_loop superuser_arg gid' user s [] = None"
| "LockGXact_loop superuser_arg gid' user s (gxact # rest) =
     (let g = gxacts s gxact; proc = allProcs s (pgprocno g) in
      if \<not> valid g then LockGXact_loop superuser_arg gid' user s rest
      else if gid g \<noteq> gid' then LockGXact_loop superuser_arg gid' user s rest
      else if locking_backend g \<noteq> InvalidBackendId then Some (Inl Busy, s)
      else if user \<noteq> owner g \<and> \<not> superuser_arg user then Some (Inl PermissionDenied, s)
      else if MyDatabaseId s \<noteq> databaseId proc \<and> Gp_role s \<noteq> GP_ROLE_EXECUTE
        then Some (Inl OtherDatabase, s)
      else Some (Inr gxact,
                 s\<lparr>gxacts := (gxacts s)(gxact := g\<lparr>locking_backend := MyBackendId s\<rparr>),
                   MyLockedGxact := Some gxact\<rparr>))"

text \<open>
  \<open>LockGXact\<close>: \<open>Inr None\<close> is the \<open>NULL\<close> the function returns when no entry matches and
  \<open>raiseErrorIfNotFound\<close> is false.
\<close>

definition LockGXact ::
  "(Oid \<Rightarrow> bool) \<Rightarrow> string \<Rightarrow> Oid \<Rightarrow> bool \<Rightarrow> twophase_state
     \<Rightarrow> (error + GlobalTransaction option) \<times> twophase_state" where
  "LockGXact superuser_arg gid' user raiseErrorIfNotFound s0 =
     (let s = s0\<lparr>twophaseExitRegistered := True\<rparr> in
      case LockGXact_loop superuser_arg gid' user s (prepXacts s) of
        Some (Inl e, s') \<Rightarrow> (Inl e, s')
      | Some (Inr gxact, s') \<Rightarrow> (Inr (Some gxact), s')
      | None \<Rightarrow> if raiseErrorIfNotFound then (Inl NotFound, s) else (Inr None, s))"

text \<open>
  The loop of \<open>RemoveGXact\<close>: the first slot \<open>i\<close> that holds the entry is overwritten with
  the last active slot and the array shrinks by one.
\<close>

fun RemoveGXact_find :: "GlobalTransaction \<Rightarrow> GlobalTransaction list \<Rightarrow> nat \<Rightarrow> nat option" where
  "RemoveGXact_find gxact [] i = None"
| "RemoveGXact_find gxact (x # xs) i =
     (if gxact = x then Some i else RemoveGXact_find gxact xs (Suc i))"

definition RemoveGXact ::
  "GlobalTransaction \<Rightarrow> twophase_state \<Rightarrow> (error + unit) \<times> twophase_state" where
  "RemoveGXact gxact s =
     (case RemoveGXact_find gxact (prepXacts s) 0 of
        Some i \<Rightarrow>
          (Inr (),
           s\<lparr>prepXacts := butlast ((prepXacts s)[i := last (prepXacts s)]),
             freeGXacts := gxact # freeGXacts s\<rparr>)
      | None \<Rightarrow> (Inl GXactNotInArray, s))"

text \<open>
  \<open>AtAbort_Twophase\<close>. When \<open>RemoveGXact\<close> raises, \<open>MyLockedGxact\<close> keeps its value.
\<close>

definition AtAbort_Twophase :: "twophase_state \<Rightarrow> (error + unit) \<times> twophase_state" where
  "AtAbort_Twophase s =
     (case MyLockedGxact s of
        None \<Rightarrow> (Inr (), s)
      | Some gxact \<Rightarrow>
          if \<not> valid (gxacts s gxact) then
            (case RemoveGXact gxact s of
               (Inl e, s') \<Rightarrow> (Inl e, s')
             | (Inr u, s') \<Rightarrow> (Inr (), s'\<lparr>MyLockedGxact := None\<rparr>))
          else
            (Inr (),
             s\<lparr>gxacts := (gxacts s)(gxact := (gxacts s gxact)\<lparr>locking_backend := InvalidBackendId\<rparr>),
               MyLockedGxact := None\<rparr>))"

text \<open>
  A sequence of \<open>MarkAsPreparing\<close> calls, one after the other, each on the state the
  previous one left; the results are collected in call order.
\<close>

type_synonym prepare_request =
  "TransactionId \<times> LocalDistribXactData \<times> string \<times> TimestampTz \<times> Oid \<times> Oid \<times> XLogRecPtr"

definition request_gid :: "prepare_request \<Rightarrow> string" where
  "request_gid r = (case r of (xid, ldx, g, at, ow, db, lsn) \<Rightarrow> g)"

fun MarkAsPreparing_all ::
  "prepare_request list \<Rightarrow> twophase_state
     \<Rightarrow> (error + GlobalTransaction) list \<times> twophase_state" where
  "MarkAsPreparing_all [] s = ([], s)"
| "MarkAsPreparing_all (r # rs) s =
     (case r of (xid, ldx, g, at, ow, db, lsn) \<Rightarrow>
        (case MarkAsPreparing xid ldx g at ow db lsn s of (res, s1) \<Rightarrow>
           (case MarkAsPreparing_all rs s1 of (ress, s2) \<Rightarrow> (res # ress, s2))))"

text \<open>
  The structural invariant of the table: no struct is both free and active or listed
  twice, and the free and active structs together are the \<open>max_prepared_xacts\<close> structs
  of the array.
\<close>

definition registry_ok :: "twophase_state \<Rightarrow> bool" where
  "registry_ok s \<longleftrightarrow>
     distinct (freeGXacts s @ prepXacts s) \<and>
     length (freeGXacts s) + length (prepXacts s) = max_prepared_xacts s"

definition active_gids :: "twophase_state \<Rightarrow> string set" where
  "active_gids s = (\<lambda>g. gid (gxacts s g)) ` set (prepXacts s)"

text \<open>
  What the body of the loop of \<open>LockGXact\<close> does at an entry that is valid and carries
  the GID: the three checks in the order of the source, then the lock.
\<close>

definition LockGXact_decide ::
  "(Oid \<Rightarrow> bool) \<Rightarrow> Oid \<Rightarrow> twophase_state \<Rightarrow> GlobalTransaction
     \<Rightarrow> (error + GlobalTransaction) \<times> twophase_state" where
  "LockGXact_decide superuser_arg user s x =
     (if locking_backend (gxacts s x) \<noteq> InvalidBackendId then (Inl Busy, s)
      else if user \<noteq> owner (gxacts s x) \<and> \<not> superuser_arg user then (Inl PermissionDenied, s)
      else if MyDatabaseId s \<noteq> databaseId (allProcs s (pgprocno (gxacts s x))) \<and>
              Gp_role s \<noteq> GP_ROLE_EXECUTE then (Inl OtherDatabase, s)
      else (Inr x, s\<lparr>gxacts := (gxacts s)(x := (gxacts s x)\<lparr>locking_backend := MyBackendId s\<rparr>),
                    MyLockedGxact := Some x\<rparr>))"

text \<open>
  The first active entry that is valid and carries the GID, in array order.
\<close>

definition valid_match :: "twophase_state \<Rightarrow> string \<Rightarrow> GlobalTransaction option" where
  "valid_match s g = find (\<lambda>x. valid (gxacts s x) \<and> gid (gxacts s x) = g) (prepXacts s)"

subsection \<open>Sample states\<close>

definition sample_gxact :: GlobalTransactionData where
  "sample_gxact = \<lparr>pgprocno = 0, dummyBackendId = 0, prepared_at = 0, prepare_begin_lsn = 0,
     prepare_lsn = 0, owner = 0, locking_backend = InvalidBackendId, valid = False, gid = []\<rparr>"

definition sample_ldx :: LocalDistribXactData where
  "sample_ldx = \<lparr>ldx_state = LOCALDISTRIBXACT_STATE_ACTIVE, distribTimeStamp = 0, distribXid = 0\<rparr>"

definition sample_proc :: PGPROC where
  "sample_proc = \<lparr>proc_xid = 0, databaseId = 0, roleId = 0, overflowed = False, subxids = [],
     localDistribXactData = sample_ldx\<rparr>"

text \<open>
  A freshly initialised table of the given capacity, seen from backend 1 connected to
  database 5 in the dispatcher role.
\<close>

definition sample_boot :: "nat \<Rightarrow> twophase_state" where
  "sample_boot n = TwoPhaseShmemInit
     \<lparr>max_prepared_xacts = n, MaxBackends = 8, freeGXacts = [], prepXacts = [],
      gxacts = (\<lambda>i. sample_gxact), allProcs = (\<lambda>i. sample_proc), procArray = [],
      MyLockedGxact = None, twophaseExitRegistered = False, MyBackendId = 1,
      MyDatabaseId = 5, Gp_role = GP_ROLE_DISPATCH\<rparr>"

text \<open>
  The table after transaction 100 was reserved under the GID \<open>t1\<close> by user 10 in the
  given database, then either marked valid and released (\<open>sample_prepared\<close>) or left as
  reserved (\<open>sample_reserved\<close>).
\<close>

definition sample_reserved :: "Oid \<Rightarrow> twophase_state" where
  "sample_reserved db = snd (MarkAsPreparing 100 sample_ldx ''t1'' 77 10 db 0 (sample_boot 2))"

definition sample_prepared :: "Oid \<Rightarrow> twophase_state" where
  "sample_prepared db = snd (PostPrepare_Twophase (MarkAsPrepared 1 (sample_reserved db)))"

section \<open>The state file: bytes, header and builder\<close>

subsection \<open>Bytes and integers in memory\<close>

text \<open>
  Multi-byte integers lie in memory least significant byte first, as on the x86-64
  machines the system runs on. \<open>wr_le n w\<close> is the image of the low \<open>n\<close> bytes of \<open>w\<close>;
  \<open>rd_le\<close> reads an integer back from its image.
\<close>

fun wr_le :: "nat \<Rightarrow> 'a::len word \<Rightarrow> byte list" where
  "wr_le 0 w = []"
| "wr_le (Suc n) w = ucast w # wr_le n (drop_bit 8 w)"

fun rd_le :: "byte list \<Rightarrow> 'a::len word" where
  "rd_le [] = 0"
| "rd_le (b # bs) = ucast b OR push_bit 8 (rd_le bs)"

definition le16 :: "16 word \<Rightarrow> byte list" where
  "le16 w = wr_le 2 w"

definition rd16 :: "byte list \<Rightarrow> 16 word" where
  "rd16 bs = rd_le (take 2 bs)"

definition le32 :: "32 word \<Rightarrow> byte list" where
  "le32 w = wr_le 4 w"

definition rd32 :: "byte list \<Rightarrow> 32 word" where
  "rd32 bs = rd_le (take 4 bs)"

definition le64 :: "64 word \<Rightarrow> byte list" where
  "le64 w = wr_le 8 w"

definition rd64 :: "byte list \<Rightarrow> 64 word" where
  "rd64 bs = rd_le (take 8 bs)"

definition byte_of_char :: "char \<Rightarrow> byte" where
  "byte_of_char c = of_nat (of_char c)"

definition char_of_byte :: "byte \<Rightarrow> char" where
  "char_of_byte b = char_of (unat b)"

text \<open>The C string that starts at the beginning of a byte sequence.\<close>

definition cstring :: "byte list \<Rightarrow> string" where
  "cstring bs = map char_of_byte (takeWhile (\<lambda>b. b \<noteq> 0) bs)"

text \<open>
  \<open>MAXALIGN(LEN)\<close> is \<open>TYPEALIGN(MAXIMUM_ALIGNOF, LEN)\<close>, that is
  \<open>(LEN + 7) & ~7\<close> with the \<open>MAXIMUM_ALIGNOF\<close> of 8 of the 64-bit platforms.
\<close>

definition MAXALIGN :: "nat \<Rightarrow> nat" where
  "MAXALIGN n = (n + 7) div 8 * 8"

text \<open>
  Reading \<open>len\<close> bytes at offset \<open>off\<close> of a buffer; \<open>None\<close> when the bytes are not all
  inside the buffer.
\<close>

definition slice :: "nat \<Rightarrow> nat \<Rightarrow> byte list \<Rightarrow> byte list option" where
  "slice off len buf = (if off + len \<le> length buf then Some (take len (drop off buf)) else None)"

definition xids_image :: "TransactionId list \<Rightarrow> byte list" where
  "xids_image xs = concat (map le32 xs)"

definition read_xids :: "nat \<Rightarrow> byte list \<Rightarrow> TransactionId list" where
  "read_xids n bs = map (\<lambda>i. rd32 (drop (4 * i) bs)) [0..<n]"

subsection \<open>The header and the record header\<close>

text \<open>
  \<open>struct TwoPhaseFileHeader\<close>; the names of its fields carry the prefix \<open>hdr_\<close>. The
  four counts are \<open>int32\<close>: words read as signed numbers. \<open>hdr_gid\<close> is the C string in
  the field \<open>gid[GIDSIZE]\<close>.
\<close>

record TwoPhaseFileHeader =
  hdr_magic :: "32 word"
  hdr_total_len :: "32 word"
  hdr_xid :: TransactionId
  hdr_database :: Oid
  hdr_prepared_at :: TimestampTz
  hdr_owner :: Oid
  hdr_nsubxacts :: "32 word"
  hdr_ncommitrels :: "32 word"
  hdr_nabortrels :: "32 word"
  hdr_ninvalmsgs :: "32 word"
  hdr_initfileinval :: bool
  hdr_gid :: string

definition TWOPHASE_MAGIC :: "32 word" where
  "TWOPHASE_MAGIC = 0x57F94532"

definition MaxAllocSize :: nat where
  "MaxAllocSize = 0x3fffffff"

definition sizeof_pg_crc32 :: nat where
  "sizeof_pg_crc32 = 4"

definition sizeof_TransactionId :: nat where
  "sizeof_TransactionId = 4"

text \<open>
  The layout of the header on x86-64: \<open>magic\<close> at offset 0, \<open>total_len\<close> at 4, \<open>xid\<close> at
  8, \<open>database\<close> at 12, \<open>prepared_at\<close> at 16, \<open>owner\<close> at 24, the four counts at 28, 32, 36
  and 40, \<open>initfileinval\<close> at 44, \<open>gid\<close> at 45 to 244, and three bytes of padding.
  \<open>StrNCpy\<close> fills the field \<open>gid\<close> with zero bytes behind the string. The padding is
  whatever the memory held: \<open>uninit\<close>.
\<close>

definition sizeof_TwoPhaseFileHeader :: nat where
  "sizeof_TwoPhaseFileHeader = 248"

definition TwoPhaseFileHeader_image :: "(nat \<Rightarrow> byte) \<Rightarrow> TwoPhaseFileHeader \<Rightarrow> byte list" where
  "TwoPhaseFileHeader_image uninit h =
     le32 (hdr_magic h) @ le32 (hdr_total_len h) @ le32 (hdr_xid h) @ le32 (hdr_database h) @
     le64 (hdr_prepared_at h) @ le32 (hdr_owner h) @
     le32 (hdr_nsubxacts h) @ le32 (hdr_ncommitrels h) @ le32 (hdr_nabortrels h) @
     le32 (hdr_ninvalmsgs h) @
     [if hdr_initfileinval h then 1 else 0] @
     map byte_of_char (hdr_gid h) @ replicate (GIDSIZE - length (hdr_gid h)) 0 @
     map uninit [245..<248]"

definition read_TwoPhaseFileHeader :: "byte list \<Rightarrow> TwoPhaseFileHeader" where
  "read_TwoPhaseFileHeader buf =
     \<lparr>hdr_magic = rd32 buf, hdr_total_len = rd32 (drop 4 buf), hdr_xid = rd32 (drop 8 buf),
      hdr_database = rd32 (drop 12 buf), hdr_prepared_at = rd64 (drop 16 buf),
      hdr_owner = rd32 (drop 24 buf), hdr_nsubxacts = rd32 (drop 28 buf),
      hdr_ncommitrels = rd32 (drop 32 buf), hdr_nabortrels = rd32 (drop 36 buf),
      hdr_ninvalmsgs = rd32 (drop 40 buf),
      hdr_initfileinval = (case drop 44 buf of [] \<Rightarrow> False | b # bs \<Rightarrow> b \<noteq> 0),
      hdr_gid = cstring (drop 45 buf)\<rparr>"

text \<open>
  \<open>struct TwoPhaseRecordOnDisk\<close>, its fields with the prefix \<open>rec_\<close>: \<open>len\<close> at offset 0, \<open>rmid\<close> (a \<open>uint8\<close>) at 4, a byte
  of padding, \<open>info\<close> at 6; eight bytes in all.
\<close>

record TwoPhaseRecordOnDisk =
  rec_len :: "32 word"
  rec_rmid :: "8 word"
  rec_info :: "16 word"

definition sizeof_TwoPhaseRecordOnDisk :: nat where
  "sizeof_TwoPhaseRecordOnDisk = 8"

definition TWOPHASE_RM_END_ID :: "8 word" where
  "TWOPHASE_RM_END_ID = 0"

definition TwoPhaseRecordOnDisk_image :: "(nat \<Rightarrow> byte) \<Rightarrow> TwoPhaseRecordOnDisk \<Rightarrow> byte list" where
  "TwoPhaseRecordOnDisk_image uninit r = le32 (rec_len r) @ [rec_rmid r] @ [uninit 5] @ le16 (rec_info r)"

definition read_TwoPhaseRecordOnDisk :: "byte list \<Rightarrow> TwoPhaseRecordOnDisk" where
  "read_TwoPhaseRecordOnDisk buf =
     \<lparr>rec_len = rd32 buf, rec_rmid = (case drop 4 buf of [] \<Rightarrow> 0 | b # bs \<Rightarrow> b),
      rec_info = rd16 (drop 6 buf)\<rparr>"

subsection \<open>The builder\<close>

text \<open>
  The chain of \<open>XLogRecData\<close> blocks \<open>records\<close>. Of each block the model keeps
  \<open>data[0 .. len)\<close>, the bytes that \<open>XLogInsert\<close> will write: \<open>xl_blocks\<close> are the blocks
  before the tail, head first, and \<open>xl_tail\<close> is the tail block.
\<close>

record xllist =
  xl_blocks :: "byte list list"
  xl_tail :: "byte list"
  bytes_free :: nat
  xl_total_len :: "32 word"

definition xllist_stream :: "xllist \<Rightarrow> byte list" where
  "xllist_stream r = concat (xl_blocks r) @ xl_tail r"

text \<open>
  \<open>save_state_data\<close>: the data and its padding go to the tail block, or to a new block
  when the tail block has no room. The padding bytes are not written; they keep what the
  allocator left there. \<open>data\<close> are the \<open>len\<close> bytes that are copied; \<open>padlen\<close> is a
  \<open>uint32\<close> and wraps around.
\<close>

definition save_state_data :: "(nat \<Rightarrow> byte) \<Rightarrow> byte list \<Rightarrow> xllist \<Rightarrow> xllist" where
  "save_state_data uninit data r =
     (let padlen = MAXALIGN (length data) mod 2 ^ 32;
          r1 = (if padlen > bytes_free r
                then r\<lparr>xl_blocks := xl_blocks r @ [xl_tail r], xl_tail := [],
                       bytes_free := max padlen 512\<rparr>
                else r)
      in r1\<lparr>xl_tail := xl_tail r1 @ data @ map uninit [length data..<padlen],
            bytes_free := bytes_free r1 - padlen,
            xl_total_len := xl_total_len r1 + of_nat padlen\<rparr>)"

definition RegisterTwoPhaseRecord ::
  "(nat \<Rightarrow> byte) \<Rightarrow> 8 word \<Rightarrow> 16 word \<Rightarrow> byte list \<Rightarrow> xllist \<Rightarrow> xllist" where
  "RegisterTwoPhaseRecord uninit rmid' info' data r =
     (let record = \<lparr>rec_len = of_nat (length data), rec_rmid = rmid', rec_info = info'\<rparr>;
          r1 = save_state_data uninit (TwoPhaseRecordOnDisk_image uninit record) r
      in if length data > 0 then save_state_data uninit data r1 else r1)"

text \<open>
  What \<open>xactGetCommittedChildren\<close>, \<open>smgrGetPendingDeletes\<close> (for commit and for abort)
  and \<open>xactGetCommittedInvalidationMessages\<close> hand to \<open>StartPrepare\<close>. An element of the
  three arrays of structs is its image in memory.
\<close>

record prepare_data =
  pd_children :: "TransactionId list"
  pd_commitrels :: "byte list list"
  pd_abortrels :: "byte list list"
  pd_invalmsgs :: "byte list list"
  pd_initfileinval :: bool

text \<open>
  The header that \<open>StartPrepare\<close> fills in. \<open>StrNCpy\<close> copies at most \<open>GIDSIZE - 1\<close>
  bytes of the GID.
\<close>

definition StartPrepare_header ::
  "GlobalTransactionData \<Rightarrow> PGPROC \<Rightarrow> prepare_data \<Rightarrow> TwoPhaseFileHeader" where
  "StartPrepare_header g proc pd =
     \<lparr>hdr_magic = TWOPHASE_MAGIC, hdr_total_len = 0, hdr_xid = proc_xid proc, hdr_database = databaseId proc,
      hdr_prepared_at = prepared_at g, hdr_owner = owner g,
      hdr_nsubxacts = of_nat (length (pd_children pd)),
      hdr_ncommitrels = of_nat (length (pd_commitrels pd)),
      hdr_nabortrels = of_nat (length (pd_abortrels pd)),
      hdr_ninvalmsgs = of_nat (length (pd_invalmsgs pd)),
      hdr_initfileinval = pd_initfileinval pd,
      hdr_gid = take (GIDSIZE - 1) (gid g)\<rparr>"

text \<open>
  The part of \<open>StartPrepare\<close> that builds the chain: the header, then each of the four
  arrays whose count is positive, \<open>count * sizeof(element)\<close> bytes of it, the product
  cut to the \<open>uint32\<close> that \<open>save_state_data\<close> takes. The sizes of
  \<open>RelFileNodePendingDelete\<close> and \<open>SharedInvalidationMessage\<close> are parameters.
\<close>

definition StartPrepare_records ::
  "(nat \<Rightarrow> byte) \<Rightarrow> nat \<Rightarrow> nat \<Rightarrow> TwoPhaseFileHeader \<Rightarrow> prepare_data \<Rightarrow> xllist" where
  "StartPrepare_records uninit sizeof_rel sizeof_msg hdr pd =
     (let r0 = \<lparr>xl_blocks = [], xl_tail = [],
                bytes_free = max sizeof_TwoPhaseFileHeader 512, xl_total_len = 0\<rparr>;
          r1 = save_state_data uninit (TwoPhaseFileHeader_image uninit hdr) r0;
          r2 = (if 0 <s hdr_nsubxacts hdr
                then save_state_data uninit
                       (take (unat (hdr_nsubxacts hdr) * sizeof_TransactionId mod 2 ^ 32)
                          (xids_image (pd_children pd))) r1
                else r1);
          r3 = (if 0 <s hdr_ncommitrels hdr
                then save_state_data uninit
                       (take (unat (hdr_ncommitrels hdr) * sizeof_rel mod 2 ^ 32) (concat (pd_commitrels pd))) r2
                else r2);
          r4 = (if 0 <s hdr_nabortrels hdr
                then save_state_data uninit
                       (take (unat (hdr_nabortrels hdr) * sizeof_rel mod 2 ^ 32) (concat (pd_abortrels pd))) r3
                else r3)
      in if 0 <s hdr_ninvalmsgs hdr
         then save_state_data uninit
                (take (unat (hdr_ninvalmsgs hdr) * sizeof_msg mod 2 ^ 32) (concat (pd_invalmsgs pd))) r4
         else r4)"

text \<open>
  The part of \<open>EndPrepare\<close> that completes the chain: the end sentinel is registered and
  \<open>total_len\<close> is written into the header at the start of the head block.
\<close>

definition set_total_len :: "32 word \<Rightarrow> byte list \<Rightarrow> byte list" where
  "set_total_len v b = take 4 b @ le32 v @ drop 8 b"

definition EndPrepare_records :: "(nat \<Rightarrow> byte) \<Rightarrow> xllist \<Rightarrow> xllist" where
  "EndPrepare_records uninit r =
     (let r1 = RegisterTwoPhaseRecord uninit TWOPHASE_RM_END_ID 0 [] r;
          v = xl_total_len r1 + of_nat sizeof_pg_crc32
      in case xl_blocks r1 of
           [] \<Rightarrow> r1\<lparr>xl_tail := set_total_len v (xl_tail r1)\<rparr>
         | b # bs \<Rightarrow> r1\<lparr>xl_blocks := set_total_len v b # bs\<rparr>)"

definition EndPrepare_total_len :: "xllist \<Rightarrow> 32 word" where
  "EndPrepare_total_len r = rd32 (drop 4 (xllist_stream r))"

subsection \<open>Reading a state file back\<close>

text \<open>
  An \<open>int32\<close> count as the number of elements the loops over an array visit.
\<close>

definition count_of :: "32 word \<Rightarrow> nat" where
  "count_of n = (if 0 <s n then unat n else 0)"

text \<open>
  The size of an array of the state file as the source computes it, \<open>n * sizeof(T)\<close>:
  the \<open>int\<close> count is converted to the 64-bit \<open>size_t\<close> of the size, so that a negative
  count gives a product near \<open>2 ^ 64\<close>. \<open>MAXALIGN64\<close> is the macro \<open>MAXALIGN\<close> on such a
  value, \<open>(LEN + 7) & ~7\<close> in 64 bits, and \<open>bufptr_add\<close> is \<open>bufptr += n\<close> on a pointer
  into the buffer, kept as its offset from the start of the buffer modulo \<open>2 ^ 64\<close>.
\<close>

definition array_size :: "32 word \<Rightarrow> nat \<Rightarrow> 64 word" where
  "array_size n sz = scast n * of_nat sz"

definition MAXALIGN64 :: "64 word \<Rightarrow> 64 word" where
  "MAXALIGN64 n = (n + 7) AND NOT 7"

definition bufptr_add :: "nat \<Rightarrow> 64 word \<Rightarrow> nat" where
  "bufptr_add bufptr n = unat (of_nat bufptr + n :: 64 word)"

text \<open>
  The pointers that \<open>FinishPreparedTransaction\<close> and \<open>RecoverPreparedTransactions\<close>
  compute from the header, as offsets into the buffer: each array starts at the
  \<open>MAXALIGN\<close>ed end of the one before. The source does not test the sign of a count: with
  the count \<open>-1\<close> the pointer does not move, with a smaller count it moves backwards.
\<close>

definition children_at :: nat where
  "children_at = MAXALIGN sizeof_TwoPhaseFileHeader"

definition commitrels_at :: "TwoPhaseFileHeader \<Rightarrow> nat" where
  "commitrels_at hdr =
     bufptr_add children_at (MAXALIGN64 (array_size (hdr_nsubxacts hdr) sizeof_TransactionId))"

definition abortrels_at :: "nat \<Rightarrow> TwoPhaseFileHeader \<Rightarrow> nat" where
  "abortrels_at sizeof_rel hdr =
     bufptr_add (commitrels_at hdr) (MAXALIGN64 (array_size (hdr_ncommitrels hdr) sizeof_rel))"

definition invalmsgs_at :: "nat \<Rightarrow> TwoPhaseFileHeader \<Rightarrow> nat" where
  "invalmsgs_at sizeof_rel hdr =
     bufptr_add (abortrels_at sizeof_rel hdr)
       (MAXALIGN64 (array_size (hdr_nabortrels hdr) sizeof_rel))"

definition records_at :: "nat \<Rightarrow> nat \<Rightarrow> TwoPhaseFileHeader \<Rightarrow> nat" where
  "records_at sizeof_rel sizeof_msg hdr =
     bufptr_add (invalmsgs_at sizeof_rel hdr)
       (MAXALIGN64 (array_size (hdr_ninvalmsgs hdr) sizeof_msg))"

text \<open>
  What is read through a pointer into the buffer. \<open>array_at\<close> are the \<open>len\<close> bytes at the
  offset \<open>off\<close>; when there is nothing to read no byte is touched, wherever the pointer
  points. \<open>xids_at\<close> are the \<open>n\<close> transaction ids that a loop \<open>for (i = 0; i < n; i++)\<close>
  reads from an array, none when \<open>n\<close> is not positive. \<open>rdata_at\<close> are the bytes that
  \<open>XLogInsert\<close> copies for an entry of the \<open>rdata\<close> chain that the source adds under
  \<open>if (n > 0)\<close> with the \<open>uint32\<close> length \<open>n * sizeof(T)\<close>.
\<close>

definition array_at :: "nat \<Rightarrow> nat \<Rightarrow> byte list \<Rightarrow> byte list option" where
  "array_at off len buf = (if len = 0 then Some [] else slice off len buf)"

definition xids_at :: "nat \<Rightarrow> 32 word \<Rightarrow> byte list \<Rightarrow> TransactionId list option" where
  "xids_at off n buf =
     map_option (read_xids (count_of n)) (array_at off (count_of n * sizeof_TransactionId) buf)"

definition rdata_len :: "32 word \<Rightarrow> nat \<Rightarrow> nat" where
  "rdata_len n sz = unat (ucast (array_size n sz) :: 32 word)"

definition rdata_at :: "nat \<Rightarrow> 32 word \<Rightarrow> nat \<Rightarrow> byte list \<Rightarrow> byte list option" where
  "rdata_at off n sz buf = (if 0 <s n then array_at off (rdata_len n sz) buf else Some [])"

text \<open>
  \<open>ProcessRecords\<close>: the walk over the resource-manager records up to the end sentinel.
  \<open>callbacks\<close> is the callback table, \<open>None\<close> for a \<open>NULL\<close> entry; a callback gets the
  transaction id, the \<open>info\<close> bits and the \<open>len\<close> data bytes of the record and acts on
  the state \<open>s\<close>. A read beyond the end of the buffer ends the walk.
\<close>

function ProcessRecords ::
  "(8 word \<Rightarrow> (TransactionId \<Rightarrow> 16 word \<Rightarrow> byte list \<Rightarrow> 's \<Rightarrow> 's) option)
     \<Rightarrow> byte list \<Rightarrow> nat \<Rightarrow> TransactionId \<Rightarrow> 's \<Rightarrow> (error + unit) \<times> 's" where
  "ProcessRecords callbacks buf bufptr x s =
     (if length buf < bufptr + sizeof_TwoPhaseRecordOnDisk then (Inl InvalidMemoryAccess, s)
      else
        (let record = read_TwoPhaseRecordOnDisk (drop bufptr buf) in
         if rec_rmid record = TWOPHASE_RM_END_ID then (Inr (), s)
         else
           (let data_at = bufptr + MAXALIGN sizeof_TwoPhaseRecordOnDisk;
                next_at = data_at + MAXALIGN (unat (rec_len record))
            in case callbacks (rec_rmid record) of
                 None \<Rightarrow> ProcessRecords callbacks buf next_at x s
               | Some cb \<Rightarrow>
                   (case slice data_at (unat (rec_len record)) buf of
                      None \<Rightarrow> (Inl InvalidMemoryAccess, s)
                    | Some data \<Rightarrow>
                        ProcessRecords callbacks buf next_at x (cb x (rec_info record) data s)))))"
  by pat_completeness auto
termination
  by (relation "measure (\<lambda>(callbacks, buf, bufptr, x, s). length buf - bufptr)")
     (auto simp: sizeof_TwoPhaseRecordOnDisk_def MAXALIGN_def)

section \<open>Preparing, finishing and recovering transactions\<close>

subsection \<open>Collaborators\<close>

text \<open>
  Modelled from the spec: the logging engine (xlog.c is not among the sources), with the
  interface \<open>Append(record bytes) -> location\<close>, \<open>Flush(location)\<close> and
  \<open>ReadAt(location) -> record bytes or CorruptRecord\<close>. A record begins at the insert
  position and the next one begins behind it; \<open>XLogInsert\<close> returns the end of the record
  and \<open>XLogLastInsertBeginLoc\<close> its beginning; \<open>XLogReadRecord\<close> finds a record only at a
  location where one begins.
\<close>

datatype xlog_info = XLOG_XACT_PREPARE | XLOG_XACT_COMMIT_PREPARED | XLOG_XACT_ABORT_PREPARED

record XLogRecord =
  xl_info :: xlog_info
  xl_data :: "byte list"

record xlog_state =
  xlog_records :: "XLogRecPtr \<Rightarrow> XLogRecord option"
  xlog_insert_pos :: XLogRecPtr
  xlog_last_begin :: XLogRecPtr
  xlog_flushed :: XLogRecPtr

definition SizeOfXLogRecord :: nat where
  "SizeOfXLogRecord = 32"

definition XLogInsert :: "xlog_info \<Rightarrow> byte list \<Rightarrow> xlog_state \<Rightarrow> XLogRecPtr \<times> xlog_state" where
  "XLogInsert i data x =
     (let b = xlog_insert_pos x; e = b + SizeOfXLogRecord + length data
      in (e, x\<lparr>xlog_records := (xlog_records x)(b \<mapsto> \<lparr>xl_info = i, xl_data = data\<rparr>),
               xlog_insert_pos := e, xlog_last_begin := b\<rparr>))"

definition XLogLastInsertBeginLoc :: "xlog_state \<Rightarrow> XLogRecPtr" where
  "XLogLastInsertBeginLoc x = xlog_last_begin x"

definition XLogFlush :: "XLogRecPtr \<Rightarrow> xlog_state \<Rightarrow> xlog_state" where
  "XLogFlush lsn x = x\<lparr>xlog_flushed := max (xlog_flushed x) lsn\<rparr>"

definition XLogReadRecord :: "xlog_state \<Rightarrow> XLogRecPtr \<Rightarrow> XLogRecord option" where
  "XLogReadRecord x loc = xlog_records x loc"

text \<open>
  Modelled from the spec: the transaction-status store (clog), with the interface
  \<open>CommitTree(xid, subxids)\<close>, \<open>AbortTree(xid, subxids)\<close>, \<open>DidCommit(xid)\<close> and
  \<open>DidAbort(xid)\<close>.
\<close>

datatype XidStatus =
    TRANSACTION_STATUS_IN_PROGRESS
  | TRANSACTION_STATUS_COMMITTED
  | TRANSACTION_STATUS_ABORTED

type_synonym clog_state = "TransactionId \<Rightarrow> XidStatus"

definition TransactionIdSetTreeStatus ::
  "TransactionId \<Rightarrow> TransactionId list \<Rightarrow> XidStatus \<Rightarrow> clog_state \<Rightarrow> clog_state" where
  "TransactionIdSetTreeStatus x children st clog =
     (\<lambda>y. if y = x \<or> y \<in> set children then st else clog y)"

definition TransactionIdDidCommit :: "clog_state \<Rightarrow> TransactionId \<Rightarrow> bool" where
  "TransactionIdDidCommit clog x \<longleftrightarrow> clog x = TRANSACTION_STATUS_COMMITTED"

definition TransactionIdDidAbort :: "clog_state \<Rightarrow> TransactionId \<Rightarrow> bool" where
  "TransactionIdDidAbort clog x \<longleftrightarrow> clog x = TRANSACTION_STATUS_ABORTED"

text \<open>
  The three callback tables of twophase\_rmgr.c, which is not among the sources, are
  known by the phase they serve.
\<close>

datatype callback_phase = recover_phase | postcommit_phase | postabort_phase

text \<open>
  The calls that leave twophase.c, and the steps of twophase.c whose order matters, in the
  order they happen.
\<close>

datatype event =
    EvXLogInsert xlog_info XLogRecPtr
  | EvXLogFlush XLogRecPtr
  | EvDistributedLog_SetCommittedTree TransactionId "TransactionId list"
  | EvTransactionIdCommitTree TransactionId "TransactionId list"
  | EvTransactionIdAbortTree TransactionId "TransactionId list"
  | EvSyncRepWaitForLSN XLogRecPtr
  | EvProcArrayAdd nat
  | EvProcArrayRemove nat TransactionId
  | EvGXactInvalidated GlobalTransaction
  | EvDropRelationFiles "byte list" "32 word"
  | EvRelationCacheInitFilePreInvalidate
  | EvSendSharedInvalidMessages "byte list" "32 word"
  | EvRelationCacheInitFilePostInvalidate
  | EvCallback callback_phase "8 word" TransactionId "16 word" "byte list"
  | EvPredicateLockTwoPhaseFinish TransactionId bool
  | EvAtEOXact_PgStat bool
  | EvRemoveRecoverMapEntry TransactionId
  | EvRemoveGXact GlobalTransaction
  | EvSubTransSetParent TransactionId TransactionId bool
  | Ev_wait_for_mirror

text \<open>
  What twophase.c takes from the rest of the system without defining it: the catalog
  lookup \<open>superuser_arg\<close>, the sizes of two structs, the contents of memory that was never
  written, the comparisons and the successor of transaction ids (transam.c), the split of a
  GID into the parts of the distributed transaction id, the fixed parts of the two outcome
  records, the callback tables (which entries are not \<open>NULL\<close>) and \<open>InHotStandby\<close>.
\<close>

record collab =
  superuser_arg :: "Oid \<Rightarrow> bool"
  sizeof_RelFileNodePendingDelete :: nat
  sizeof_SharedInvalidationMessage :: nat
  uninit :: "nat \<Rightarrow> byte"
  TransactionIdPrecedes :: "TransactionId \<Rightarrow> TransactionId \<Rightarrow> bool"
  TransactionIdFollowsOrEquals :: "TransactionId \<Rightarrow> TransactionId \<Rightarrow> bool"
  TransactionIdAdvance :: "TransactionId \<Rightarrow> TransactionId"
  TransactionIdLatest :: "TransactionId \<Rightarrow> TransactionId list \<Rightarrow> TransactionId"
  dtxCrackOpenGid :: "string \<Rightarrow> 32 word \<times> 32 word"
  xl_xact_commit_prepared_image ::
    "TransactionId \<Rightarrow> string \<Rightarrow> 32 word \<Rightarrow> 32 word \<Rightarrow> 32 word \<Rightarrow> byte list"
  xl_xact_abort_prepared_image :: "TransactionId \<Rightarrow> 32 word \<Rightarrow> 32 word \<Rightarrow> byte list"
  has_callback :: "callback_phase \<Rightarrow> 8 word \<Rightarrow> bool"
  InHotStandby :: bool

subsection \<open>The state of the system\<close>

text \<open>
  \<open>recover_map\<close> is the hash table
  \<open>crashRecoverPostCheckpointPreparedTransactions_map_ht\<close> in the order in which
  \<open>hash_seq_search\<close> walks it; a table that was never created is the empty list.
  \<open>records\<close> is the chain under construction, \<open>None\<close> while its head and tail are \<open>NULL\<close>.
\<close>

record snapshot =
  snap_tp :: twophase_state
  snap_recover_map :: "(TransactionId \<times> XLogRecPtr) list"
  snap_xlog :: xlog_state
  snap_clog :: clog_state

record system_state =
  tp :: twophase_state
  recover_map :: "(TransactionId \<times> XLogRecPtr) list"
  xlog :: xlog_state
  clog :: clog_state
  nextXid :: TransactionId
  records :: "xllist option"
  events :: "event list"
  snapshots :: "snapshot list"

text \<open>
  A step is recorded when it is done: \<open>events\<close> gets the step, \<open>snapshots\<close> the table,
  the recovery map, the log and the status store as they are right after the step, which
  is what another backend would find at that moment.
\<close>

definition snapshot_of :: "system_state \<Rightarrow> snapshot" where
  "snapshot_of s =
     \<lparr>snap_tp = tp s, snap_recover_map = recover_map s, snap_xlog = xlog s, snap_clog = clog s\<rparr>"

definition log_event :: "event \<Rightarrow> system_state \<Rightarrow> system_state" where
  "log_event e s = s\<lparr>events := events s @ [e], snapshots := snapshots s @ [snapshot_of s]\<rparr>"

definition add_recover_post_checkpoint_prepared_transactions_map_entry ::
  "TransactionId \<Rightarrow> XLogRecPtr \<Rightarrow> (TransactionId \<times> XLogRecPtr) list
     \<Rightarrow> (TransactionId \<times> XLogRecPtr) list" where
  "add_recover_post_checkpoint_prepared_transactions_map_entry x m tab =
     (if x \<in> fst ` set tab then map (\<lambda>(k, v). if k = x then (k, m) else (k, v)) tab
      else tab @ [(x, m)])"

definition remove_recover_post_checkpoint_prepared_transactions_map_entry ::
  "TransactionId \<Rightarrow> (TransactionId \<times> XLogRecPtr) list \<Rightarrow> (TransactionId \<times> XLogRecPtr) list" where
  "remove_recover_post_checkpoint_prepared_transactions_map_entry x tab =
     filter (\<lambda>(k, v). k \<noteq> x) tab"

definition callbacks_of ::
  "collab \<Rightarrow> callback_phase
     \<Rightarrow> 8 word \<Rightarrow> (TransactionId \<Rightarrow> 16 word \<Rightarrow> byte list \<Rightarrow> system_state \<Rightarrow> system_state) option" where
  "callbacks_of c ph r =
     (if has_callback c ph r then Some (\<lambda>x i data. log_event (EvCallback ph r x i data))
      else None)"

subsection \<open>Preparing\<close>

definition StartPrepare ::
  "collab \<Rightarrow> GlobalTransaction \<Rightarrow> prepare_data \<Rightarrow> system_state \<Rightarrow> system_state" where
  "StartPrepare c gxact pd s =
     (let g = gxacts (tp s) gxact;
          proc = allProcs (tp s) (pgprocno g);
          hdr = StartPrepare_header g proc pd;
          r = StartPrepare_records (uninit c) (sizeof_RelFileNodePendingDelete c)
                (sizeof_SharedInvalidationMessage c) hdr pd;
          t = (if 0 <s hdr_nsubxacts hdr
               then GXactLoadSubxactData gxact (pd_children pd) (tp s) else tp s)
      in s\<lparr>records := Some r, tp := t\<rparr>)"

text \<open>
  \<open>RegisterTwoPhaseRecord\<close> on the chain of the state; without a chain the source writes
  through a null pointer.
\<close>

definition RegisterTwoPhaseRecord_sys ::
  "collab \<Rightarrow> 8 word \<Rightarrow> 16 word \<Rightarrow> byte list \<Rightarrow> system_state \<Rightarrow> (error + unit) \<times> system_state" where
  "RegisterTwoPhaseRecord_sys c r i data s =
     (case records s of
        None \<Rightarrow> (Inl InvalidMemoryAccess, s)
      | Some l \<Rightarrow> (Inr (), s\<lparr>records := Some (RegisterTwoPhaseRecord (uninit c) r i data l)\<rparr>))"

definition EndPrepare ::
  "collab \<Rightarrow> GlobalTransaction \<Rightarrow> system_state \<Rightarrow> (error + unit) \<times> system_state" where
  "EndPrepare c gxact s =
     (case records s of
        None \<Rightarrow> (Inl InvalidMemoryAccess, s)
      | Some r \<Rightarrow>
          (let r1 = EndPrepare_records (uninit c) r;
               s1 = s\<lparr>records := Some r1\<rparr>
           in if unat (EndPrepare_total_len r1) > MaxAllocSize then (Inl RecordTooLarge, s1)
              else
                (let x = proc_xid (allProcs (tp s1) (pgprocno (gxacts (tp s1) gxact)));
                     ins = XLogInsert XLOG_XACT_PREPARE (xllist_stream r1) (xlog s1);
                     lsn = fst ins;
                     begin_lsn = XLogLastInsertBeginLoc (snd ins);
                     t1 = (tp s1)\<lparr>gxacts := (gxacts (tp s1))
                             (gxact := (gxacts (tp s1) gxact)
                                \<lparr>prepare_lsn := lsn, prepare_begin_lsn := begin_lsn\<rparr>)\<rparr>;
                     s2 = log_event (EvXLogInsert XLOG_XACT_PREPARE lsn)
                            (s1\<lparr>xlog := snd ins, tp := t1\<rparr>);
                     s3 = s2\<lparr>recover_map :=
                             add_recover_post_checkpoint_prepared_transactions_map_entry
                               x begin_lsn (recover_map s2)\<rparr>;
                     s4 = log_event (EvXLogFlush lsn) (s3\<lparr>xlog := XLogFlush lsn (xlog s3)\<rparr>);
                     s5 = log_event (EvProcArrayAdd (pgprocno (gxacts (tp s4) gxact)))
                            (s4\<lparr>tp := (MarkAsPrepared gxact (tp s4))\<lparr>MyLockedGxact := Some gxact\<rparr>\<rparr>);
                     s6 = log_event (EvSyncRepWaitForLSN lsn) s5
                 in (Inr (), s6\<lparr>records := None\<rparr>))))"

subsection \<open>Finishing\<close>

text \<open>
  \<open>RecordTransactionCommitPrepared\<close>: the commit record is inserted and flushed, then the
  distributed log and the status store are marked, then the backend waits for the
  replica. The pointers \<open>children\<close>, \<open>rels\<close> and \<open>invalmsgs\<close> are offsets into \<open>buf\<close>, the
  memory they point into; a read outside of it is an invalid memory access.
\<close>

definition RecordTransactionCommitPrepared ::
  "collab \<Rightarrow> TransactionId \<Rightarrow> string \<Rightarrow> 32 word \<Rightarrow> nat \<Rightarrow> 32 word \<Rightarrow> nat \<Rightarrow> 32 word \<Rightarrow> nat
     \<Rightarrow> byte list \<Rightarrow> system_state \<Rightarrow> (error + unit) \<times> system_state" where
  "RecordTransactionCommitPrepared c x gid' nchildren children nrels rels ninvalmsgs invalmsgs
       buf s =
     (case rdata_at rels nrels (sizeof_RelFileNodePendingDelete c) buf of
        None \<Rightarrow> (Inl InvalidMemoryAccess, s)
      | Some rdata1 \<Rightarrow>
          (case rdata_at children nchildren sizeof_TransactionId buf of
             None \<Rightarrow> (Inl InvalidMemoryAccess, s)
           | Some rdata2 \<Rightarrow>
               (case rdata_at invalmsgs ninvalmsgs (sizeof_SharedInvalidationMessage c) buf of
                  None \<Rightarrow> (Inl InvalidMemoryAccess, s)
                | Some rdata3 \<Rightarrow>
                    (let data = xl_xact_commit_prepared_image c x gid' nrels nchildren ninvalmsgs @
                                rdata1 @ rdata2 @ rdata3;
                         ins = XLogInsert XLOG_XACT_COMMIT_PREPARED data (xlog s);
                         recptr = fst ins;
                         s1 = log_event (EvXLogInsert XLOG_XACT_COMMIT_PREPARED recptr)
                                (s\<lparr>xlog := snd ins\<rparr>);
                         s2 = log_event (EvXLogFlush recptr)
                                (s1\<lparr>xlog := XLogFlush recptr (xlog s1)\<rparr>)
                     in case xids_at children nchildren buf of
                          None \<Rightarrow> (Inl InvalidMemoryAccess, s2)
                        | Some xs \<Rightarrow>
                            (let s3 = log_event (EvDistributedLog_SetCommittedTree x xs) s2;
                                 s4 = log_event (EvTransactionIdCommitTree x xs)
                                        (s3\<lparr>clog := TransactionIdSetTreeStatus x xs
                                                        TRANSACTION_STATUS_COMMITTED (clog s3)\<rparr>)
                             in (Inr (), log_event (EvSyncRepWaitForLSN recptr) s4))))))"

text \<open>
  \<open>RecordTransactionAbortPrepared\<close>: a PANIC when the transaction already shows
  committed; otherwise the abort record is inserted and flushed, the status store is
  marked and the backend waits for the replica.
\<close>

definition RecordTransactionAbortPrepared ::
  "collab \<Rightarrow> TransactionId \<Rightarrow> 32 word \<Rightarrow> nat \<Rightarrow> 32 word \<Rightarrow> nat \<Rightarrow> byte list
     \<Rightarrow> system_state \<Rightarrow> (error + unit) \<times> system_state" where
  "RecordTransactionAbortPrepared c x nchildren children nrels rels buf s =
     (if TransactionIdDidCommit (clog s) x then (Inl AlreadyCommitted, s)
      else
        (case rdata_at rels nrels (sizeof_RelFileNodePendingDelete c) buf of
           None \<Rightarrow> (Inl InvalidMemoryAccess, s)
         | Some rdata1 \<Rightarrow>
             (case rdata_at children nchildren sizeof_TransactionId buf of
                None \<Rightarrow> (Inl InvalidMemoryAccess, s)
              | Some rdata2 \<Rightarrow>
                  (let data = xl_xact_abort_prepared_image c x nrels nchildren @ rdata1 @ rdata2;
                       ins = XLogInsert XLOG_XACT_ABORT_PREPARED data (xlog s);
                       recptr = fst ins;
                       s1 = log_event (EvXLogInsert XLOG_XACT_ABORT_PREPARED recptr)
                              (s\<lparr>xlog := snd ins\<rparr>);
                       s2 = log_event (EvXLogFlush recptr)
                              (s1\<lparr>xlog := XLogFlush recptr (xlog s1)\<rparr>)
                   in case xids_at children nchildren buf of
                        None \<Rightarrow> (Inl InvalidMemoryAccess, s2)
                      | Some xs \<Rightarrow>
                          (let s3 = log_event (EvTransactionIdAbortTree x xs)
                                      (s2\<lparr>clog := TransactionIdSetTreeStatus x xs
                                                      TRANSACTION_STATUS_ABORTED (clog s2)\<rparr>)
                           in (Inr (), log_event (EvSyncRepWaitForLSN recptr) s3))))))"

text \<open>
  The end of \<open>FinishPreparedTransaction\<close>, from \<open>ProcArrayRemove\<close> on: the dummy process
  leaves the ProcArray, the entry becomes invalid, the files are dropped, the invalidation
  messages are sent, the callbacks run, and the entry leaves the recovery map and the
  table. The delete list and the invalidation messages are read from the buffer where
  \<open>DropRelationFiles\<close> and \<open>SendSharedInvalidMessages\<close> are called with them.
\<close>

definition Finish_cleanup ::
  "collab \<Rightarrow> GlobalTransaction \<Rightarrow> bool \<Rightarrow> TransactionId \<Rightarrow> TransactionId \<Rightarrow> byte list
     \<Rightarrow> TwoPhaseFileHeader \<Rightarrow> system_state \<Rightarrow> (error + bool) \<times> system_state" where
  "Finish_cleanup c gxact isCommit x latestXid buf hdr s =
     (let szrel = sizeof_RelFileNodePendingDelete c;
          szmsg = sizeof_SharedInvalidationMessage c;
          p = pgprocno (gxacts (tp s) gxact);
          s1 = log_event (EvProcArrayRemove p latestXid)
                 (s\<lparr>tp := (tp s)\<lparr>procArray := remove1 p (procArray (tp s))\<rparr>\<rparr>);
          s2 = log_event (EvGXactInvalidated gxact)
                 (s1\<lparr>tp := (tp s1)\<lparr>gxacts := (gxacts (tp s1))
                                   (gxact := (gxacts (tp s1) gxact)\<lparr>valid := False\<rparr>)\<rparr>\<rparr>);
          delrels = (if isCommit then commitrels_at hdr else abortrels_at szrel hdr);
          ndelrels = (if isCommit then hdr_ncommitrels hdr else hdr_nabortrels hdr)
      in case array_at delrels (count_of ndelrels * szrel) buf of
           None \<Rightarrow> (Inl InvalidMemoryAccess, s2)
         | Some rels \<Rightarrow>
             (let s3 = log_event (EvDropRelationFiles rels ndelrels) s2;
                  s4 = (if hdr_initfileinval hdr
                        then log_event EvRelationCacheInitFilePreInvalidate s3 else s3)
              in case array_at (invalmsgs_at szrel hdr)
                        (count_of (hdr_ninvalmsgs hdr) * szmsg) buf of
                   None \<Rightarrow> (Inl InvalidMemoryAccess, s4)
                 | Some msgs \<Rightarrow>
                     (let s5 = log_event (EvSendSharedInvalidMessages msgs (hdr_ninvalmsgs hdr)) s4;
                          s6 = (if hdr_initfileinval hdr
                                then log_event EvRelationCacheInitFilePostInvalidate s5 else s5);
                          ph = (if isCommit then postcommit_phase else postabort_phase)
                      in case ProcessRecords (callbacks_of c ph) buf
                                (records_at szrel szmsg hdr) x s6 of
                           (Inl e, s7) \<Rightarrow> (Inl e, s7)
                         | (Inr u, s7) \<Rightarrow>
                             (let s8 = log_event (EvPredicateLockTwoPhaseFinish x isCommit) s7;
                                  s9 = log_event (EvAtEOXact_PgStat isCommit) s8;
                                  s10 = log_event (EvRemoveRecoverMapEntry x)
                                          (s9\<lparr>recover_map :=
                                                remove_recover_post_checkpoint_prepared_transactions_map_entry
                                                  x (recover_map s9)\<rparr>)
                              in case RemoveGXact gxact (tp s10) of
                                   (Inl e, t) \<Rightarrow> (Inl e, s10\<lparr>tp := t\<rparr>)
                                 | (Inr u, t) \<Rightarrow>
                                     (Inr True,
                                      log_event (EvRemoveGXact gxact)
                                        (s10\<lparr>tp := t\<lparr>MyLockedGxact := None\<rparr>\<rparr>))))))"

text \<open>
  The middle of \<open>FinishPreparedTransaction\<close>: the pointers into the buffer are computed
  from the header, the latest transaction id is computed from the children, and the
  outcome is recorded.
\<close>

definition Finish_record ::
  "collab \<Rightarrow> GlobalTransaction \<Rightarrow> string \<Rightarrow> bool \<Rightarrow> TransactionId \<Rightarrow> byte list
     \<Rightarrow> system_state \<Rightarrow> (error + bool) \<times> system_state" where
  "Finish_record c gxact gid' isCommit x buf s =
     (if length buf < sizeof_TwoPhaseFileHeader then (Inl InvalidMemoryAccess, s)
      else
        (let hdr = read_TwoPhaseFileHeader buf;
             szrel = sizeof_RelFileNodePendingDelete c;
             children = children_at;
             commitrels = commitrels_at hdr;
             abortrels = abortrels_at szrel hdr;
             invalmsgs = invalmsgs_at szrel hdr
         in case xids_at children (hdr_nsubxacts hdr) buf of
              None \<Rightarrow> (Inl InvalidMemoryAccess, s)
            | Some xs \<Rightarrow>
                (let latestXid = TransactionIdLatest c x xs in
                 case (if isCommit
                       then RecordTransactionCommitPrepared c x gid'
                              (hdr_nsubxacts hdr) children (hdr_ncommitrels hdr) commitrels
                              (hdr_ninvalmsgs hdr) invalmsgs buf s
                       else RecordTransactionAbortPrepared c x
                              (hdr_nsubxacts hdr) children (hdr_nabortrels hdr) abortrels buf s) of
                   (Inl e, s1) \<Rightarrow> (Inl e, s1)
                 | (Inr u, s1) \<Rightarrow> Finish_cleanup c gxact isCommit x latestXid buf hdr s1)))"

text \<open>
  \<open>FinishPreparedTransaction\<close>. \<open>user\<close> is \<open>GetUserId()\<close>. The result \<open>Inr False\<close> is the
  \<open>false\<close> returned when no entry was found, \<open>Inr True\<close> the \<open>true\<close> at the end.
\<close>

definition FinishPreparedTransaction ::
  "collab \<Rightarrow> Oid \<Rightarrow> string \<Rightarrow> bool \<Rightarrow> bool \<Rightarrow> system_state \<Rightarrow> (error + bool) \<times> system_state" where
  "FinishPreparedTransaction c user gid' isCommit raiseErrorIfNotFound s =
     (case LockGXact (superuser_arg c) gid' user raiseErrorIfNotFound (tp s) of
        (Inl e, t) \<Rightarrow> (Inl e, s\<lparr>tp := t\<rparr>)
      | (Inr None, t) \<Rightarrow>
          (Inr False, if isCommit then log_event Ev_wait_for_mirror (s\<lparr>tp := t\<rparr>) else s\<lparr>tp := t\<rparr>)
      | (Inr (Some gxact), t) \<Rightarrow>
          (let s1 = s\<lparr>tp := t\<rparr>;
               g = gxacts (tp s1) gxact;
               x = proc_xid (allProcs (tp s1) (pgprocno g));
               tfXLogRecPtr = prepare_begin_lsn g
           in case XLogReadRecord (xlog s1) tfXLogRecPtr of
                None \<Rightarrow> (Inl CorruptRecord, s1)
              | Some tfRecord \<Rightarrow> Finish_record c gxact gid' isCommit x (xl_data tfRecord) s1))"

subsection \<open>Recovery\<close>

text \<open>
  The loop of \<open>PrescanPreparedTransactions\<close> over the subtransaction ids of one record.
\<close>

fun Prescan_subxids :: "collab \<Rightarrow> TransactionId list \<Rightarrow> TransactionId \<Rightarrow> TransactionId" where
  "Prescan_subxids c [] nx = nx"
| "Prescan_subxids c (subxid # rest) nx =
     Prescan_subxids c rest
       (if TransactionIdFollowsOrEquals c subxid nx then TransactionIdAdvance c subxid else nx)"

text \<open>
  The loop of \<open>PrescanPreparedTransactions\<close> over the recovery map. The loop ends at the
  end of the map and also at an entry whose location is \<open>InvalidXLogRecPtr\<close>. The source
  reads \<open>hdr->xid\<close> from the record before it tests whether \<open>XLogReadRecord\<close> returned a
  record at all; without a record this read goes through the null pointer, so the test and
  its \<open>ereport\<close> are never reached.
\<close>

fun Prescan_loop ::
  "collab \<Rightarrow> bool \<Rightarrow> (TransactionId \<times> XLogRecPtr) list \<Rightarrow> TransactionId \<Rightarrow> TransactionId list
     \<Rightarrow> system_state \<Rightarrow> (error + TransactionId \<times> TransactionId list) \<times> system_state" where
  "Prescan_loop c xids_p [] result xids s = (Inr (result, xids), s)"
| "Prescan_loop c xids_p ((key, tfXLogRecPtr) # rest) result xids s =
     (if tfXLogRecPtr = InvalidXLogRecPtr then (Inr (result, xids), s)
      else
        (case XLogReadRecord (xlog s) tfXLogRecPtr of
           None \<Rightarrow> (Inl InvalidMemoryAccess, s)
         | Some tfRecord \<Rightarrow>
             (let buf = xl_data tfRecord in
              if length buf < sizeof_TwoPhaseFileHeader then (Inl InvalidMemoryAccess, s)
              else
                (let hdr = read_TwoPhaseFileHeader buf; x = hdr_xid hdr in
                 if \<not> TransactionIdDidCommit (clog s) x \<and> \<not> TransactionIdDidAbort (clog s) x
                 then
                   (let result1 = (if TransactionIdPrecedes c x result then x else result);
                        nsub = count_of (hdr_nsubxacts hdr)
                    in case slice children_at (nsub * sizeof_TransactionId) buf of
                         None \<Rightarrow> (Inl InvalidMemoryAccess, s)
                       | Some cb \<Rightarrow>
                           Prescan_loop c xids_p rest result1
                             (if xids_p then xids @ [x] else xids)
                             (s\<lparr>nextXid := Prescan_subxids c (read_xids nsub cb) (nextXid s)\<rparr>))
                 else Prescan_loop c xids_p rest result xids s))))"

text \<open>
  \<open>PrescanPreparedTransactions\<close>: the result is the running minimum, started at the
  \<open>nextXid\<close> found on entry, and the array of top-level ids when \<open>xids_p\<close> is given.
\<close>

definition PrescanPreparedTransactions ::
  "collab \<Rightarrow> bool \<Rightarrow> system_state
     \<Rightarrow> (error + TransactionId \<times> TransactionId list) \<times> system_state" where
  "PrescanPreparedTransactions c xids_p s =
     Prescan_loop c xids_p (recover_map s) (nextXid s) [] s"

text \<open>
  The loop of \<open>RecoverPreparedTransactions\<close> over the recovery map; \<open>overwriteOK\<close>, once
  set, stays set for the entries that follow.
\<close>

fun Recover_loop ::
  "collab \<Rightarrow> (TransactionId \<times> XLogRecPtr) list \<Rightarrow> bool \<Rightarrow> system_state
     \<Rightarrow> (error + unit) \<times> system_state" where
  "Recover_loop c [] overwriteOK s = (Inr (), s)"
| "Recover_loop c ((key, tfXLogRecPtr) # rest) overwriteOK s =
     (if tfXLogRecPtr = InvalidXLogRecPtr then (Inr (), s)
      else
        (case XLogReadRecord (xlog s) tfXLogRecPtr of
           None \<Rightarrow> (Inl CorruptRecord, s)
         | Some tfRecord \<Rightarrow>
             (let buf = xl_data tfRecord in
              if length buf < sizeof_TwoPhaseFileHeader then (Inl InvalidMemoryAccess, s)
              else
                (let hdr = read_TwoPhaseFileHeader buf;
                     x = hdr_xid hdr;
                     overwriteOK1 =
                       (overwriteOK \<or>
                        (InHotStandby c \<and>
                         count_of (hdr_nsubxacts hdr) \<ge> PGPROC_MAX_CACHED_SUBXIDS))
                 in case xids_at children_at (hdr_nsubxacts hdr) buf of
                      None \<Rightarrow> (Inl InvalidMemoryAccess, s)
                    | Some subxids' \<Rightarrow>
                        (let s1 = foldl (\<lambda>st subxid.
                                    log_event (EvSubTransSetParent subxid x overwriteOK1) st)
                                    s subxids';
                             d = dtxCrackOpenGid c (hdr_gid hdr);
                             ldx = \<lparr>ldx_state = LOCALDISTRIBXACT_STATE_ACTIVE,
                                    distribTimeStamp = fst d, distribXid = snd d\<rparr>
                         in case MarkAsPreparing x ldx (hdr_gid hdr) (hdr_prepared_at hdr)
                                   (hdr_owner hdr) (hdr_database hdr) tfXLogRecPtr (tp s1) of
                              (Inl e, t) \<Rightarrow> (Inl e, s1\<lparr>tp := t\<rparr>)
                            | (Inr gxact, t) \<Rightarrow>
                                (let t1 = MarkAsPrepared gxact
                                            (GXactLoadSubxactData gxact subxids' t);
                                     s2 = log_event (EvProcArrayAdd (pgprocno (gxacts t1 gxact)))
                                            (s1\<lparr>tp := t1\<rparr>)
                                 in case ProcessRecords (callbacks_of c recover_phase) buf
                                           (records_at (sizeof_RelFileNodePendingDelete c)
                                              (sizeof_SharedInvalidationMessage c) hdr) x s2 of
                                      (Inl e, s3) \<Rightarrow> (Inl e, s3)
                                    | (Inr u, s3) \<Rightarrow>
                                        Recover_loop c rest overwriteOK1 s3))))))"

definition RecoverPreparedTransactions ::
  "collab \<Rightarrow> system_state \<Rightarrow> (error + unit) \<times> system_state" where
  "RecoverPreparedTransactions c s = Recover_loop c (recover_map s) False s"

subsection \<open>Sample system\<close>

text \<open>
  Collaborators for the sample runs: user 1 is the superuser, the two structs take 16
  bytes, memory that was never written holds \<open>0xAA\<close>, transaction ids compare as numbers,
  and only the resource manager 1 has callbacks.
\<close>

definition sample_collab :: collab where
  "sample_collab =
     \<lparr>superuser_arg = (\<lambda>u. u = 1),
      sizeof_RelFileNodePendingDelete = 16,
      sizeof_SharedInvalidationMessage = 16,
      uninit = (\<lambda>i. 0xAA),
      TransactionIdPrecedes = (\<lambda>a b. a < b),
      TransactionIdFollowsOrEquals = (\<lambda>a b. a \<ge> b),
      TransactionIdAdvance = (\<lambda>a. a + 1),
      TransactionIdLatest = (\<lambda>a xs. fold max xs a),
      dtxCrackOpenGid = (\<lambda>g. (0, 0)),
      xl_xact_commit_prepared_image = (\<lambda>x g n m k. le32 x),
      xl_xact_abort_prepared_image = (\<lambda>x n m. le32 x),
      has_callback = (\<lambda>ph r. r = 1),
      InHotStandby = False\<rparr>"

definition sample_system :: "twophase_state \<Rightarrow> system_state" where
  "sample_system t =
     \<lparr>tp = t, recover_map = [],
      xlog = \<lparr>xlog_records = Map.empty, xlog_insert_pos = 64, xlog_last_begin = 0,
              xlog_flushed = 0\<rparr>,
      clog = (\<lambda>x. TRANSACTION_STATUS_IN_PROGRESS), nextXid = 200, records = None, events = [],
      snapshots = []\<rparr>"

text \<open>
  Transaction 100 with the subtransactions 101 and 102, one file to delete at commit and
  one invalidation message, prepared under the GID \<open>t1\<close> by user 10 in database 5 with one
  record of resource manager 1. \<open>sample_file\<close> is the state file the builder makes for
  it, \<open>sample_xlog\<close> a log that holds this file as the prepare record at location 64.
\<close>

definition sample_data :: prepare_data where
  "sample_data =
     \<lparr>pd_children = [101, 102], pd_commitrels = [replicate 16 7], pd_abortrels = [],
      pd_invalmsgs = [replicate 16 9], pd_initfileinval = True\<rparr>"

subsection \<open>The order of the steps of a finish\<close>

text \<open>
  The stage of \<open>FinishPreparedTransaction\<close> an event belongs to: writing the outcome
  record (0), flushing it (1), updating the status stores (2), waiting for the replica
  (3), removing the dummy process from the ProcArray (4), and everything that follows (5).
\<close>

fun finish_stage :: "event \<Rightarrow> nat" where
  "finish_stage (EvXLogInsert i l) = 0"
| "finish_stage (EvXLogFlush l) = 1"
| "finish_stage (EvDistributedLog_SetCommittedTree x cs) = 2"
| "finish_stage (EvTransactionIdCommitTree x cs) = 2"
| "finish_stage (EvTransactionIdAbortTree x cs) = 2"
| "finish_stage (EvSyncRepWaitForLSN l) = 3"
| "finish_stage (EvProcArrayRemove p x) = 4"
| "finish_stage e = 5"

text \<open>The events a call adds to those that were there before.\<close>

definition new_events :: "system_state \<Rightarrow> system_state \<Rightarrow> event list" where
  "new_events s s' = drop (length (events s)) (events s')"

text \<open>The steps a call adds, each with the state recorded at it.\<close>

definition new_snapshots :: "system_state \<Rightarrow> system_state \<Rightarrow> snapshot list" where
  "new_snapshots s s' = drop (length (snapshots s)) (snapshots s')"

definition new_steps :: "system_state \<Rightarrow> system_state \<Rightarrow> (event \<times> snapshot) list" where
  "new_steps s s' = zip (new_events s s') (new_snapshots s s')"

text \<open>
  What the steps of a finish establish, as facts about a recorded state. \<open>b\<close> is the
  position at which the log ended when the finish began, \<open>x\<close> the transaction, \<open>p\<close> its
  dummy process and \<open>gxact\<close> its entry.
\<close>

definition outcome_kind :: "bool \<Rightarrow> xlog_info" where
  "outcome_kind isCommit = (if isCommit then XLOG_XACT_COMMIT_PREPARED else XLOG_XACT_ABORT_PREPARED)"

definition outcome_status :: "bool \<Rightarrow> XidStatus" where
  "outcome_status isCommit =
     (if isCommit then TRANSACTION_STATUS_COMMITTED else TRANSACTION_STATUS_ABORTED)"

text \<open>The outcome record lies in the log at \<open>b\<close> and ends at \<open>l\<close>.\<close>

definition outcome_written_at :: "bool \<Rightarrow> XLogRecPtr \<Rightarrow> XLogRecPtr \<Rightarrow> xlog_state \<Rightarrow> bool" where
  "outcome_written_at isCommit b l xl \<longleftrightarrow>
     (case XLogReadRecord xl b of
        None \<Rightarrow> False
      | Some r \<Rightarrow> xl_info r = outcome_kind isCommit \<and> l = b + SizeOfXLogRecord + length (xl_data r))"

text \<open>The outcome record lies in the log at \<open>b\<close> and the log is flushed up to its end.\<close>

definition outcome_durable :: "bool \<Rightarrow> XLogRecPtr \<Rightarrow> xlog_state \<Rightarrow> bool" where
  "outcome_durable isCommit b xl \<longleftrightarrow>
     (case XLogReadRecord xl b of
        None \<Rightarrow> False
      | Some r \<Rightarrow> xl_info r = outcome_kind isCommit \<and>
                  b + SizeOfXLogRecord + length (xl_data r) \<le> xlog_flushed xl)"

definition status_set :: "bool \<Rightarrow> TransactionId \<Rightarrow> clog_state \<Rightarrow> bool" where
  "status_set isCommit x cl \<longleftrightarrow> cl x = outcome_status isCommit"

definition shadow_gone :: "nat \<Rightarrow> twophase_state \<Rightarrow> bool" where
  "shadow_gone p t \<longleftrightarrow> p \<notin> set (procArray t)"

definition entry_invalid :: "GlobalTransaction \<Rightarrow> twophase_state \<Rightarrow> bool" where
  "entry_invalid gxact t \<longleftrightarrow> \<not> valid (gxacts t gxact)"

definition entry_removed :: "GlobalTransaction \<Rightarrow> twophase_state \<Rightarrow> bool" where
  "entry_removed gxact t \<longleftrightarrow> gxact \<notin> set (prepXacts t)"

text \<open>
  What a step of the finish of transaction \<open>x\<close> says and does: the step names this
  transaction, its dummy process and its entry, and the recorded state shows its effect.
  \<open>cl\<close> is the status store and \<open>pa\<close> the ProcArray from before the finish.
\<close>

fun step_effect ::
  "bool \<Rightarrow> TransactionId \<Rightarrow> nat \<Rightarrow> GlobalTransaction \<Rightarrow> XLogRecPtr \<Rightarrow> clog_state \<Rightarrow> nat list
     \<Rightarrow> event \<Rightarrow> snapshot \<Rightarrow> bool" where
  "step_effect isCommit x p gxact b cl pa (EvXLogInsert i l) sn \<longleftrightarrow>
     i = outcome_kind isCommit \<and> outcome_written_at isCommit b l (snap_xlog sn)"
| "step_effect isCommit x p gxact b cl pa (EvXLogFlush l) sn \<longleftrightarrow>
     outcome_written_at isCommit b l (snap_xlog sn) \<and> l \<le> xlog_flushed (snap_xlog sn)"
| "step_effect isCommit x p gxact b cl pa (EvDistributedLog_SetCommittedTree y xs) sn \<longleftrightarrow>
     isCommit \<and> y = x"
| "step_effect isCommit x p gxact b cl pa (EvTransactionIdCommitTree y xs) sn \<longleftrightarrow>
     isCommit \<and> y = x \<and>
     snap_clog sn = TransactionIdSetTreeStatus x xs TRANSACTION_STATUS_COMMITTED cl"
| "step_effect isCommit x p gxact b cl pa (EvTransactionIdAbortTree y xs) sn \<longleftrightarrow>
     \<not> isCommit \<and> y = x \<and>
     snap_clog sn = TransactionIdSetTreeStatus x xs TRANSACTION_STATUS_ABORTED cl"
| "step_effect isCommit x p gxact b cl pa (EvSyncRepWaitForLSN l) sn \<longleftrightarrow>
     outcome_written_at isCommit b l (snap_xlog sn)"
| "step_effect isCommit x p gxact b cl pa (EvProcArrayRemove q latestXid) sn \<longleftrightarrow>
     q = p \<and> procArray (snap_tp sn) = remove1 p pa"
| "step_effect isCommit x p gxact b cl pa (EvGXactInvalidated g) sn \<longleftrightarrow> g = gxact"
| "step_effect isCommit x p gxact b cl pa (EvDropRelationFiles rels n) sn \<longleftrightarrow> True"
| "step_effect isCommit x p gxact b cl pa EvRelationCacheInitFilePreInvalidate sn \<longleftrightarrow> True"
| "step_effect isCommit x p gxact b cl pa (EvSendSharedInvalidMessages msgs n) sn \<longleftrightarrow> True"
| "step_effect isCommit x p gxact b cl pa EvRelationCacheInitFilePostInvalidate sn \<longleftrightarrow> True"
| "step_effect isCommit x p gxact b cl pa (EvCallback ph r y i d) sn \<longleftrightarrow>
     ph = (if isCommit then postcommit_phase else postabort_phase) \<and> y = x"
| "step_effect isCommit x p gxact b cl pa (EvPredicateLockTwoPhaseFinish y k) sn \<longleftrightarrow>
     y = x \<and> k = isCommit"
| "step_effect isCommit x p gxact b cl pa (EvAtEOXact_PgStat k) sn \<longleftrightarrow> k = isCommit"
| "step_effect isCommit x p gxact b cl pa (EvRemoveRecoverMapEntry y) sn \<longleftrightarrow>
     y = x \<and> x \<notin> fst ` set (snap_recover_map sn)"
| "step_effect isCommit x p gxact b cl pa (EvRemoveGXact g) sn \<longleftrightarrow>
     g = gxact \<and> gxact \<in> set (freeGXacts (snap_tp sn))"
| "step_effect isCommit x p gxact b cl pa (EvProcArrayAdd q) sn \<longleftrightarrow> False"
| "step_effect isCommit x p gxact b cl pa (EvSubTransSetParent y z k) sn \<longleftrightarrow> False"
| "step_effect isCommit x p gxact b cl pa Ev_wait_for_mirror sn \<longleftrightarrow> False"

text \<open>
  What holds in the state recorded at a step of a finish, by the stage of the step: the
  outcome record is durable from the flush on and the status store is untouched until
  then; the status is set before the dummy process leaves the ProcArray, and the dummy
  process is in the ProcArray until then; the dummy process is gone before the entry is
  made invalid, and the entry is valid until then; the entry is invalid at every later
  step, and it is in the table up to the step that removes it.
\<close>

definition finish_step_ok ::
  "bool \<Rightarrow> TransactionId \<Rightarrow> nat \<Rightarrow> GlobalTransaction \<Rightarrow> XLogRecPtr \<Rightarrow> clog_state \<Rightarrow> nat list
     \<Rightarrow> event \<times> snapshot \<Rightarrow> bool" where
  "finish_step_ok isCommit x p gxact b cl pa st \<longleftrightarrow>
     (case st of (e, sn) \<Rightarrow>
        step_effect isCommit x p gxact b cl pa e sn \<and>
        (1 \<le> finish_stage e \<longrightarrow> outcome_durable isCommit b (snap_xlog sn)) \<and>
        (finish_stage e \<le> 1 \<longrightarrow> snap_clog sn = cl) \<and>
        (3 \<le> finish_stage e \<longrightarrow> status_set isCommit x (snap_clog sn)) \<and>
        (finish_stage e \<le> 3 \<longrightarrow> \<not> shadow_gone p (snap_tp sn)) \<and>
        (4 \<le> finish_stage e \<longrightarrow> shadow_gone p (snap_tp sn)) \<and>
        (finish_stage e \<le> 4 \<longrightarrow> \<not> entry_invalid gxact (snap_tp sn)) \<and>
        (5 \<le> finish_stage e \<longrightarrow> entry_invalid gxact (snap_tp sn)) \<and>
        (entry_removed gxact (snap_tp sn) \<longleftrightarrow> e = EvRemoveGXact gxact))"

text \<open>
  The outcome record names the transaction: it begins with the fixed part of the record
  as it is filled in for \<open>x\<close> and the GID.
\<close>

definition outcome_names ::
  "collab \<Rightarrow> bool \<Rightarrow> TransactionId \<Rightarrow> string \<Rightarrow> XLogRecPtr \<Rightarrow> xlog_state \<Rightarrow> bool" where
  "outcome_names c isCommit x g b xl \<longleftrightarrow>
     (case XLogReadRecord xl b of
        None \<Rightarrow> False
      | Some r \<Rightarrow>
          (\<exists>nrels nchildren ninvalmsgs rest.
             xl_data r =
               (if isCommit then xl_xact_commit_prepared_image c x g nrels nchildren ninvalmsgs
                else xl_xact_abort_prepared_image c x nrels nchildren) @ rest))"

text \<open>
  Between the states \<open>s\<close> and \<open>s'\<close> steps were added that all satisfy \<open>Q\<close>, in the order
  of their stages, all of a stage from \<open>lo\<close> to \<open>hi\<close>.
\<close>

definition finish_run ::
  "(event \<times> snapshot \<Rightarrow> bool) \<Rightarrow> nat \<Rightarrow> nat \<Rightarrow> system_state \<Rightarrow> system_state \<Rightarrow> bool" where
  "finish_run Q lo hi s s' \<longleftrightarrow>
     (\<exists>steps. events s' = events s @ map fst steps \<and>
              snapshots s' = snapshots s @ map snd steps \<and>
              list_all Q steps \<and>
              sorted (map (finish_stage \<circ> fst) steps) \<and>
              (\<forall>st \<in> set steps. lo \<le> finish_stage (fst st) \<and> finish_stage (fst st) \<le> hi))"

subsection \<open>The layout of a state file\<close>

text \<open>
  A section of the state file: the data, followed by padding up to the next multiple of the
  alignment.
\<close>

definition padded :: "(nat \<Rightarrow> byte) \<Rightarrow> byte list \<Rightarrow> byte list" where
  "padded u data = data @ map u [length data..<MAXALIGN (length data)]"

text \<open>
  A resource-manager record as registered: the resource manager, the \<open>info\<close> bits and
  the data. In the file it is the record header and the data, each a section.
\<close>

type_synonym rmgr_record = "8 word \<times> 16 word \<times> byte list"

definition rmgr_record_image :: "(nat \<Rightarrow> byte) \<Rightarrow> rmgr_record \<Rightarrow> byte list" where
  "rmgr_record_image u r =
     (case r of (rm, i, d) \<Rightarrow>
        padded u (TwoPhaseRecordOnDisk_image u
          \<lparr>rec_len = of_nat (length d), rec_rmid = rm, rec_info = i\<rparr>) @
        padded u d)"

text \<open>
  The layout the specification gives for the state record: header, subtransaction ids,
  commit-time delete list, abort-time delete list, invalidation messages,
  resource-manager records, end sentinel, each section padded. (The checksum that follows
  is the logging engine's.)
\<close>

definition state_file_layout ::
  "(nat \<Rightarrow> byte) \<Rightarrow> TwoPhaseFileHeader \<Rightarrow> prepare_data \<Rightarrow> rmgr_record list \<Rightarrow> byte list" where
  "state_file_layout u hdr pd recs =
     padded u (TwoPhaseFileHeader_image u hdr) @
     padded u (xids_image (pd_children pd)) @
     padded u (concat (pd_commitrels pd)) @
     padded u (concat (pd_abortrels pd)) @
     padded u (concat (pd_invalmsgs pd)) @
     concat (map (rmgr_record_image u) recs) @
     rmgr_record_image u (TWOPHASE_RM_END_ID, 0, [])"

text \<open>
  The chain as the builder leaves it: \<open>StartPrepare\<close>, then one
  \<open>RegisterTwoPhaseRecord\<close> for each record of the resource managers, then the sentinel
  and the total length of \<open>EndPrepare\<close>.
\<close>

definition build_state_file ::
  "(nat \<Rightarrow> byte) \<Rightarrow> nat \<Rightarrow> nat \<Rightarrow> TwoPhaseFileHeader \<Rightarrow> prepare_data \<Rightarrow> rmgr_record list
     \<Rightarrow> xllist" where
  "build_state_file u sizeof_rel sizeof_msg hdr pd recs =
     EndPrepare_records u
       (foldl (\<lambda>r rc. case rc of (rm, i, d) \<Rightarrow> RegisterTwoPhaseRecord u rm i d r)
          (StartPrepare_records u sizeof_rel sizeof_msg hdr pd) recs)"

text \<open>
  What the types of the source say about the data handed to the builder: the counts are
  \<open>int\<close>s, each struct of an array has the size of its type, each array and the data of
  each record is one allocated object and so has \<open>MaxAllocSize\<close> bytes at most, a GID is a
  C string that \<open>MarkAsPreparing\<close> accepted, and the resource manager of a registered
  record is not the end sentinel.
\<close>

definition prepare_data_ok :: "nat \<Rightarrow> nat \<Rightarrow> prepare_data \<Rightarrow> bool" where
  "prepare_data_ok sizeof_rel sizeof_msg pd \<longleftrightarrow>
     length (pd_children pd) < 2 ^ 31 \<and> length (pd_commitrels pd) < 2 ^ 31 \<and>
     length (pd_abortrels pd) < 2 ^ 31 \<and> length (pd_invalmsgs pd) < 2 ^ 31 \<and>
     length (pd_children pd) * sizeof_TransactionId \<le> MaxAllocSize \<and>
     length (pd_commitrels pd) * sizeof_rel \<le> MaxAllocSize \<and>
     length (pd_abortrels pd) * sizeof_rel \<le> MaxAllocSize \<and>
     length (pd_invalmsgs pd) * sizeof_msg \<le> MaxAllocSize \<and>
     (\<forall>r \<in> set (pd_commitrels pd). length r = sizeof_rel) \<and>
     (\<forall>r \<in> set (pd_abortrels pd). length r = sizeof_rel) \<and>
     (\<forall>m \<in> set (pd_invalmsgs pd). length m = sizeof_msg)"

definition gid_ok :: "string \<Rightarrow> bool" where
  "gid_ok g \<longleftrightarrow> length g < GIDSIZE \<and> CHR 0x00 \<notin> set g"

definition rmgr_record_ok :: "rmgr_record \<Rightarrow> bool" where
  "rmgr_record_ok r \<longleftrightarrow> (case r of (rm, i, d) \<Rightarrow> rm \<noteq> TWOPHASE_RM_END_ID \<and> length d \<le> MaxAllocSize)"

text \<open>
  A callback table that only collects the records it is called with, in call order.
\<close>

definition collect_callbacks ::
  "8 word \<Rightarrow> (TransactionId \<Rightarrow> 16 word \<Rightarrow> byte list \<Rightarrow> rmgr_record list \<Rightarrow> rmgr_record list) option" where
  "collect_callbacks rm = Some (\<lambda>x i d acc. acc @ [(rm, i, d)])"

text \<open>The head block of the chain, where the header lies.\<close>

definition head_block :: "xllist \<Rightarrow> byte list" where
  "head_block r = (case xl_blocks r of [] \<Rightarrow> xl_tail r | b # bs \<Rightarrow> b)"

text \<open>A header that agrees with the data on the four counts.\<close>

definition header_counts :: "TwoPhaseFileHeader \<Rightarrow> prepare_data \<Rightarrow> bool" where
  "header_counts hdr pd \<longleftrightarrow>
     hdr_nsubxacts hdr = of_nat (length (pd_children pd)) \<and>
     hdr_ncommitrels hdr = of_nat (length (pd_commitrels pd)) \<and>
     hdr_nabortrels hdr = of_nat (length (pd_abortrels pd)) \<and>
     hdr_ninvalmsgs hdr = of_nat (length (pd_invalmsgs pd))"

text \<open>What the walk of \<open>ProcessRecords\<close> does with one record.\<close>

definition apply_callback ::
  "(8 word \<Rightarrow> (TransactionId \<Rightarrow> 16 word \<Rightarrow> byte list \<Rightarrow> 's \<Rightarrow> 's) option)
     \<Rightarrow> TransactionId \<Rightarrow> 's \<Rightarrow> rmgr_record \<Rightarrow> 's" where
  "apply_callback callbacks x s r =
     (case r of (rm, i, d) \<Rightarrow> (case callbacks rm of None \<Rightarrow> s | Some cb \<Rightarrow> cb x i d s))"


text \<open>
  A restart with one entry in the recovery map that points to a location where the log
  holds no record.
\<close>

definition sample_unreadable :: system_state where
  "sample_unreadable = (sample_system (sample_boot 2))\<lparr>recover_map := [(100, 64)]\<rparr>"

definition sample_header :: TwoPhaseFileHeader where
  "sample_header =
     StartPrepare_header (gxacts (sample_prepared 5) 1)
       (allProcs (sample_prepared 5) (pgprocno (gxacts (sample_prepared 5) 1))) sample_data"

definition sample_records :: "rmgr_record list" where
  "sample_records = [(1, 3, [1, 2, 3])]"

definition sample_file :: "byte list" where
  "sample_file =
     xllist_stream (build_state_file (uninit sample_collab) 16 16 sample_header sample_data
       sample_records)"

definition sample_xlog :: xlog_state where
  "sample_xlog =
     \<lparr>xlog_records = [64 \<mapsto> \<lparr>xl_info = XLOG_XACT_PREPARE, xl_data = sample_file\<rparr>],
      xlog_insert_pos = 64 + SizeOfXLogRecord + length sample_file, xlog_last_begin = 64,
      xlog_flushed = 64 + SizeOfXLogRecord + length sample_file\<rparr>"

text \<open>
  The system with this transaction prepared: the entry is valid, unlocked and points to
  its prepare record.
\<close>

definition sample_finishable :: system_state where
  "sample_finishable =
     (sample_system
        ((sample_prepared 5)\<lparr>gxacts := (gxacts (sample_prepared 5))
           (1 := (gxacts (sample_prepared 5) 1)\<lparr>prepare_begin_lsn := 64\<rparr>)\<rparr>))
     \<lparr>recover_map := [(100, 64)], xlog := sample_xlog\<rparr>"


subsection \<open>What the prescan finds\<close>








text \<open>The running minimum of \<open>PrescanPreparedTransactions\<close>.\<close>

definition running_minimum :: "collab \<Rightarrow> TransactionId \<Rightarrow> TransactionId list \<Rightarrow> TransactionId" where
  "running_minimum c = foldl (\<lambda>result x. if TransactionIdPrecedes c x result then x else result)"

section \<open>Properties\<close>


subsection \<open>Reserving entries\<close>

lemma MarkAsPreparing_error_state:
  "fst (MarkAsPreparing xid ldx g at ow db lsn s) = Inl e \<Longrightarrow>
   snd (MarkAsPreparing xid ldx g at ow db lsn s) = s\<lparr>twophaseExitRegistered := True\<rparr>"
  by (auto simp: MarkAsPreparing_def Let_def split: if_splits list.splits)

lemma MarkAsPreparing_too_long:
  "GIDSIZE \<le> length g \<Longrightarrow> fst (MarkAsPreparing xid ldx g at ow db lsn s) = Inl IdentifierTooLong"
  by (simp add: MarkAsPreparing_def Let_def)

lemma MarkAsPreparing_disabled:
  "length g < GIDSIZE \<Longrightarrow> max_prepared_xacts s = 0 \<Longrightarrow>
   fst (MarkAsPreparing xid ldx g at ow db lsn s) = Inl FeatureDisabled"
  by (simp add: MarkAsPreparing_def Let_def)

lemma MarkAsPreparing_duplicate:
  "length g < GIDSIZE \<Longrightarrow> max_prepared_xacts s \<noteq> 0 \<Longrightarrow> g \<in> active_gids s \<Longrightarrow>
   fst (MarkAsPreparing xid ldx g at ow db lsn s) = Inl DuplicateIdentifier"
  by (auto simp: MarkAsPreparing_def Let_def active_gids_def list_ex_iff)

lemma MarkAsPreparing_exhausted:
  "length g < GIDSIZE \<Longrightarrow> max_prepared_xacts s \<noteq> 0 \<Longrightarrow> g \<notin> active_gids s \<Longrightarrow>
   freeGXacts s = [] \<Longrightarrow>
   fst (MarkAsPreparing xid ldx g at ow db lsn s) = Inl CapacityExhausted"
  by (auto simp: MarkAsPreparing_def Let_def active_gids_def list_ex_iff)

lemma MarkAsPreparing_success:
  assumes "length g < GIDSIZE" "g \<notin> active_gids s" "freeGXacts s = h # rest" "registry_ok s"
  shows "\<exists>s'. MarkAsPreparing xid ldx g at ow db lsn s = (Inr h, s') \<and>
          registry_ok s' \<and> freeGXacts s' = rest \<and> prepXacts s' = prepXacts s @ [h] \<and>
          active_gids s' = insert g (active_gids s) \<and>
          max_prepared_xacts s' = max_prepared_xacts s"
proof -
  from assms(3,4) have m: "max_prepared_xacts s \<noteq> 0" and hn: "h \<notin> set (prepXacts s)"
    and d: "distinct (rest @ prepXacts s @ [h])"
    by (auto simp: registry_ok_def)
  have ne: "\<not> list_ex (\<lambda>x. gid (gxacts s x) = g) (prepXacts s)"
    using assms(2) by (auto simp: active_gids_def list_ex_iff)
  show ?thesis
    using assms m hn d ne
    by (auto simp: MarkAsPreparing_def Let_def registry_ok_def active_gids_def image_iff)
qed

lemma MarkAsPreparing_failure_registry:
  assumes "fst (MarkAsPreparing xid ldx g at ow db lsn s) = Inl e"
  shows "registry_ok (snd (MarkAsPreparing xid ldx g at ow db lsn s)) = registry_ok s"
    and "active_gids (snd (MarkAsPreparing xid ldx g at ow db lsn s)) = active_gids s"
    and "freeGXacts (snd (MarkAsPreparing xid ldx g at ow db lsn s)) = freeGXacts s"
    and "prepXacts (snd (MarkAsPreparing xid ldx g at ow db lsn s)) = prepXacts s"
  using MarkAsPreparing_error_state [OF assms]
  by (simp_all add: registry_ok_def active_gids_def)

lemma MarkAsPreparing_no_free:
  assumes "freeGXacts s = []"
  shows "isl (fst (MarkAsPreparing xid ldx g at ow db lsn s))"
  using assms by (simp add: MarkAsPreparing_def Let_def)

lemma MarkAsPreparing_all_general:
  assumes "registry_ok s" "distinct (map request_gid rs)"
    "\<forall>r \<in> set rs. length (request_gid r) < GIDSIZE"
    "request_gid ` set rs \<inter> active_gids s = {}"
  shows "case MarkAsPreparing_all rs s of (res, s') \<Rightarrow>
           length res = length rs \<and>
           list_all (\<lambda>r. \<not> isl r) (take (length (freeGXacts s)) res) \<and>
           list_all isl (drop (length (freeGXacts s)) res) \<and>
           length (prepXacts s') = length (prepXacts s) + min (length rs) (length (freeGXacts s))"
  using assms
proof (induction rs arbitrary: s)
  case Nil
  then show ?case by simp
next
  case (Cons r rs)
  obtain xid ldx g at ow db lsn where r: "r = (xid, ldx, g, at, ow, db, lsn)"
    by (cases r) auto
  have g: "g = request_gid r" by (simp add: r request_gid_def)
  obtain res s1 where m: "MarkAsPreparing xid ldx g at ow db lsn s = (res, s1)"
    by fastforce
  obtain ress s2 where a: "MarkAsPreparing_all rs s1 = (ress, s2)"
    by fastforce
  have short: "length g < GIDSIZE" using Cons.prems(3) g by simp
  have fresh: "g \<notin> active_gids s" using Cons.prems(4) g by auto
  show ?case
  proof (cases "freeGXacts s")
    case Nil
    have f: "isl res" using MarkAsPreparing_no_free [OF Nil, of xid ldx g at ow db lsn] m by simp
    then obtain e where e: "fst (MarkAsPreparing xid ldx g at ow db lsn s) = Inl e"
      using m by (cases res) auto
    have s1: "registry_ok s1" "active_gids s1 = active_gids s" "freeGXacts s1 = []"
      "prepXacts s1 = prepXacts s"
      using MarkAsPreparing_failure_registry [OF e] m Cons.prems(1) Nil by simp_all
    have "case MarkAsPreparing_all rs s1 of (res, s') \<Rightarrow>
           length res = length rs \<and>
           list_all (\<lambda>r. \<not> isl r) (take (length (freeGXacts s1)) res) \<and>
           list_all isl (drop (length (freeGXacts s1)) res) \<and>
           length (prepXacts s') = length (prepXacts s1) + min (length rs) (length (freeGXacts s1))"
      using Cons.prems s1 by (intro Cons.IH) auto
    then show ?thesis
      using a m r f s1 Nil by simp
  next
    case (Cons h rest)
    obtain s' where s': "MarkAsPreparing xid ldx g at ow db lsn s = (Inr h, s')"
      "registry_ok s'" "freeGXacts s' = rest" "prepXacts s' = prepXacts s @ [h]"
      "active_gids s' = insert g (active_gids s)"
      using MarkAsPreparing_success [OF short fresh Cons Cons.prems(1), of xid ldx at ow db lsn]
      by blast
    have eq: "res = Inr h" "s1 = s'" using m s'(1) by simp_all
    have disj: "request_gid ` set rs \<inter> active_gids s1 = {}"
      using Cons.prems(2,4) g eq s'(5) by auto
    have "case MarkAsPreparing_all rs s1 of (res, s') \<Rightarrow>
           length res = length rs \<and>
           list_all (\<lambda>r. \<not> isl r) (take (length (freeGXacts s1)) res) \<and>
           list_all isl (drop (length (freeGXacts s1)) res) \<and>
           length (prepXacts s') = length (prepXacts s1) + min (length rs) (length (freeGXacts s1))"
      using Cons.prems s' eq disj by (intro Cons.IH) auto
    then show ?thesis
      using a m r eq s' Cons by simp
  qed
qed

lemma TwoPhaseShmemInit_loop_props:
  "prepXacts (TwoPhaseShmemInit_loop n s) = prepXacts s \<and>
   max_prepared_xacts (TwoPhaseShmemInit_loop n s) = max_prepared_xacts s \<and>
   freeGXacts (TwoPhaseShmemInit_loop n s) = rev [0..<n] @ freeGXacts s"
  by (induction n) (simp_all add: Let_def)

lemma TwoPhaseShmemInit_ok:
  "registry_ok (TwoPhaseShmemInit s)"
  "prepXacts (TwoPhaseShmemInit s) = []"
  "length (freeGXacts (TwoPhaseShmemInit s)) = max_prepared_xacts s"
  "max_prepared_xacts (TwoPhaseShmemInit s) = max_prepared_xacts s"
  by (simp_all add: TwoPhaseShmemInit_def TwoPhaseShmemInit_loop_props registry_ok_def)

subsection \<open>Locking and removing entries\<close>

lemma LockGXact_loop_find:
  "LockGXact_loop su g user s xs =
     map_option (LockGXact_decide su user s)
       (find (\<lambda>x. valid (gxacts s x) \<and> gid (gxacts s x) = g) xs)"
  by (induction xs) (auto simp: Let_def LockGXact_decide_def)

lemma RemoveGXact_find_Some:
  "RemoveGXact_find x xs k = Some i \<Longrightarrow> \<exists>j. i = k + j \<and> j < length xs \<and> xs ! j = x"
proof (induction xs arbitrary: k)
  case Nil
  then show ?case by simp
next
  case (Cons a xs)
  show ?case
  proof (cases "x = a")
    case True
    with Cons.prems show ?thesis by auto
  next
    case False
    with Cons.prems have "RemoveGXact_find x xs (Suc k) = Some i" by simp
    from Cons.IH [OF this] obtain j where "i = Suc k + j" "j < length xs" "xs ! j = x"
      by blast
    then have "i = k + Suc j \<and> Suc j < length (a # xs) \<and> (a # xs) ! Suc j = x"
      by simp
    then show ?thesis by blast
  qed
qed

lemma RemoveGXact_find_mem:
  "x \<in> set xs \<Longrightarrow> \<exists>i. RemoveGXact_find x xs k = Some i"
  by (induction xs arbitrary: k) auto

lemma swap_last_remove:
  assumes "distinct xs" "i < length xs"
  shows "set (butlast (xs[i := last xs])) = set xs - {xs ! i}"
    and "distinct (butlast (xs[i := last xs]))"
    and "length (butlast (xs[i := last xs])) = length xs - 1"
proof -
  from assms(2) have ne: "xs \<noteq> []" by auto
  then obtain ys l where xs: "xs = ys @ [l]" by (metis rev_exhaust)
  have d: "distinct ys" "l \<notin> set ys" using assms(1) xs by auto
  show "length (butlast (xs[i := last xs])) = length xs - 1" by simp
  show "set (butlast (xs[i := last xs])) = set xs - {xs ! i}"
  proof (cases "i < length ys")
    case True
    then have "butlast (xs[i := last xs]) = ys[i := l]"
      by (simp add: xs list_update_append)
    moreover have "set (ys[i := l]) = insert l (set ys - {ys ! i})"
      using True d(1) by (metis set_update_distinct)
    moreover have "xs ! i = ys ! i" using True by (simp add: xs nth_append)
    moreover have "ys ! i \<noteq> l" using True d(2) by (metis nth_mem)
    ultimately show ?thesis using d xs by auto
  next
    case False
    then have i: "i = length ys" using assms(2) xs by simp
    then show ?thesis using d by (simp add: xs)
  qed
  show "distinct (butlast (xs[i := last xs]))"
  proof (cases "i < length ys")
    case True
    then have "butlast (xs[i := last xs]) = ys[i := l]"
      by (simp add: xs list_update_append)
    moreover have "distinct (ys[i := l])"
      using True d by (simp add: distinct_list_update)
    ultimately show ?thesis by simp
  next
    case False
    then have i: "i = length ys" using assms(2) xs by simp
    then show ?thesis using d by (simp add: xs)
  qed
qed

subsection \<open>Claims about the table\<close>

text \<open>
  Claim C3. \<open>MarkAsPreparing\<close> (Reserve) makes its checks in this order and fails
  \<^item> with \<open>IdentifierTooLong\<close> when the GID has 200 bytes or more (the field holds 199 bytes
    and the terminator);
  \<^item> otherwise with \<open>FeatureDisabled\<close> when \<open>max_prepared_xacts\<close> is zero;
  \<^item> otherwise with \<open>DuplicateIdentifier\<close> when an active entry, valid or not, carries the
    GID;
  \<^item> otherwise with \<open>CapacityExhausted\<close> when the free list is empty.
  A failing call leaves the state as it was, but for the flag that records the registration
  of the exit hook of the backend, which is no part of the table. Starting from the table as
  \<open>TwoPhaseShmemInit\<close> leaves it, a sequence of calls with pairwise distinct GIDs of legal
  length succeeds on each of its first \<open>max_prepared_xacts\<close> calls, and the number of active
  entries at the end is the number of calls that succeeded.
\<close>

theorem MarkAsPreparing_failures_and_capacity:
  "(GIDSIZE \<le> length g \<longrightarrow>
      fst (MarkAsPreparing xid ldx g at ow db lsn s) = Inl IdentifierTooLong) \<and>
   (length g < GIDSIZE \<and> max_prepared_xacts s = 0 \<longrightarrow>
      fst (MarkAsPreparing xid ldx g at ow db lsn s) = Inl FeatureDisabled) \<and>
   (length g < GIDSIZE \<and> max_prepared_xacts s \<noteq> 0 \<and>
    (\<exists>x \<in> set (prepXacts s). gid (gxacts s x) = g) \<longrightarrow>
      fst (MarkAsPreparing xid ldx g at ow db lsn s) = Inl DuplicateIdentifier) \<and>
   (length g < GIDSIZE \<and> max_prepared_xacts s \<noteq> 0 \<and>
    \<not> (\<exists>x \<in> set (prepXacts s). gid (gxacts s x) = g) \<and> freeGXacts s = [] \<longrightarrow>
      fst (MarkAsPreparing xid ldx g at ow db lsn s) = Inl CapacityExhausted) \<and>
   (\<forall>e. fst (MarkAsPreparing xid ldx g at ow db lsn s) = Inl e \<longrightarrow>
      snd (MarkAsPreparing xid ldx g at ow db lsn s) = s\<lparr>twophaseExitRegistered := True\<rparr>) \<and>
   (distinct (map request_gid rs) \<and> (\<forall>r \<in> set rs. length (request_gid r) < GIDSIZE) \<longrightarrow>
      (case MarkAsPreparing_all rs (TwoPhaseShmemInit s0) of (res, s') \<Rightarrow>
         list_all (\<lambda>r. \<not> isl r) (take (max_prepared_xacts s0) res) \<and>
         numPrepXacts s' = length (filter (\<lambda>r. \<not> isl r) res)))"
proof (intro conjI impI allI)
  assume "GIDSIZE \<le> length g"
  then show "fst (MarkAsPreparing xid ldx g at ow db lsn s) = Inl IdentifierTooLong"
    by (rule MarkAsPreparing_too_long)
next
  assume "length g < GIDSIZE \<and> max_prepared_xacts s = 0"
  then show "fst (MarkAsPreparing xid ldx g at ow db lsn s) = Inl FeatureDisabled"
    by (simp add: MarkAsPreparing_disabled)
next
  assume "length g < GIDSIZE \<and> max_prepared_xacts s \<noteq> 0 \<and>
    (\<exists>x \<in> set (prepXacts s). gid (gxacts s x) = g)"
  then show "fst (MarkAsPreparing xid ldx g at ow db lsn s) = Inl DuplicateIdentifier"
    by (intro MarkAsPreparing_duplicate) (auto simp: active_gids_def)
next
  assume "length g < GIDSIZE \<and> max_prepared_xacts s \<noteq> 0 \<and>
    \<not> (\<exists>x \<in> set (prepXacts s). gid (gxacts s x) = g) \<and> freeGXacts s = []"
  then show "fst (MarkAsPreparing xid ldx g at ow db lsn s) = Inl CapacityExhausted"
    by (intro MarkAsPreparing_exhausted) (auto simp: active_gids_def)
next
  fix e
  assume "fst (MarkAsPreparing xid ldx g at ow db lsn s) = Inl e"
  then show "snd (MarkAsPreparing xid ldx g at ow db lsn s) = s\<lparr>twophaseExitRegistered := True\<rparr>"
    by (rule MarkAsPreparing_error_state)
next
  assume a: "distinct (map request_gid rs) \<and> (\<forall>r \<in> set rs. length (request_gid r) < GIDSIZE)"
  let ?i = "TwoPhaseShmemInit s0"
  obtain res s' where r: "MarkAsPreparing_all rs ?i = (res, s')" by fastforce
  have "request_gid ` set rs \<inter> active_gids ?i = {}"
    by (simp add: active_gids_def TwoPhaseShmemInit_ok)
  with a have "case MarkAsPreparing_all rs ?i of (res, s') \<Rightarrow>
           length res = length rs \<and>
           list_all (\<lambda>r. \<not> isl r) (take (length (freeGXacts ?i)) res) \<and>
           list_all isl (drop (length (freeGXacts ?i)) res) \<and>
           length (prepXacts s') = length (prepXacts ?i) + min (length rs) (length (freeGXacts ?i))"
    by (intro MarkAsPreparing_all_general) (simp_all add: TwoPhaseShmemInit_ok)
  then have f: "length res = length rs"
    "list_all (\<lambda>r. \<not> isl r) (take (max_prepared_xacts s0) res)"
    "list_all isl (drop (max_prepared_xacts s0) res)"
    "length (prepXacts s') = min (length rs) (max_prepared_xacts s0)"
    by (simp_all add: r TwoPhaseShmemInit_ok)
  have "filter (\<lambda>r. \<not> isl r) res =
        filter (\<lambda>r. \<not> isl r) (take (max_prepared_xacts s0) res) @
        filter (\<lambda>r. \<not> isl r) (drop (max_prepared_xacts s0) res)"
    by (metis append_take_drop_id filter_append)
  also have "\<dots> = take (max_prepared_xacts s0) res"
    using f(2,3) by (simp add: list_all_iff)
  finally have "length (filter (\<lambda>r. \<not> isl r) res) = min (length rs) (max_prepared_xacts s0)"
    using f(1) by simp
  then show "case MarkAsPreparing_all rs ?i of (res, s') \<Rightarrow>
         list_all (\<lambda>r. \<not> isl r) (take (max_prepared_xacts s0) res) \<and>
         numPrepXacts s' = length (filter (\<lambda>r. \<not> isl r) res)"
    using f by (simp add: r numPrepXacts_def)
qed

theorem MarkAsPreparing_failures_and_capacity_witness:
  "fst (MarkAsPreparing 100 sample_ldx (replicate 200 CHR ''a'') 77 10 5 0 (sample_boot 2))
     = Inl IdentifierTooLong \<and>
   fst (MarkAsPreparing 100 sample_ldx ''t1'' 77 10 5 0 (sample_boot 0)) = Inl FeatureDisabled \<and>
   fst (MarkAsPreparing 101 sample_ldx ''t1'' 78 11 5 0 (sample_reserved 5))
     = Inl DuplicateIdentifier \<and>
   snd (MarkAsPreparing 101 sample_ldx ''t1'' 78 11 5 0 (sample_reserved 5))
     = (sample_reserved 5)\<lparr>twophaseExitRegistered := True\<rparr> \<and>
   fst (MarkAsPreparing 100 sample_ldx ''t2'' 77 10 5 0
          (snd (MarkAsPreparing 100 sample_ldx ''t1'' 77 10 5 0 (sample_boot 1))))
     = Inl CapacityExhausted \<and>
   (case MarkAsPreparing_all
           [(100, sample_ldx, ''t1'', 77, 10, 5, 0), (101, sample_ldx, ''t2'', 78, 10, 5, 0),
            (102, sample_ldx, ''t3'', 79, 10, 5, 0)] (sample_boot 2) of
      (res, s') \<Rightarrow> list_all (\<lambda>r. \<not> isl r) (take 2 res) \<and>
         numPrepXacts s' = length (filter (\<lambda>r. \<not> isl r) res))"
proof -
  let ?s1 = "snd (MarkAsPreparing 100 sample_ldx ''t1'' 77 10 5 0 (sample_boot 1))"
  let ?b = "\<lparr>max_prepared_xacts = 2, MaxBackends = 8, freeGXacts = [], prepXacts = [],
      gxacts = (\<lambda>i. sample_gxact), allProcs = (\<lambda>i. sample_proc), procArray = [],
      MyLockedGxact = None, twophaseExitRegistered = False, MyBackendId = 1,
      MyDatabaseId = 5, Gp_role = GP_ROLE_DISPATCH\<rparr>"
  let ?rs = "[(100, sample_ldx, ''t1'', 77, 10, 5, 0), (101, sample_ldx, ''t2'', 78, 10, 5, 0),
            (102, sample_ldx, ''t3'', 79, 10, 5, 0)] :: prepare_request list"
  have h1: "GIDSIZE \<le> length (replicate 200 CHR ''a'')" by (simp add: GIDSIZE_def)
  have h2: "length ''t1'' < GIDSIZE \<and> max_prepared_xacts (sample_boot 0) = 0"
    by (simp add: GIDSIZE_def sample_boot_def TwoPhaseShmemInit_def)
  have h3: "length ''t1'' < GIDSIZE \<and> max_prepared_xacts (sample_reserved 5) \<noteq> 0 \<and>
     (\<exists>x \<in> set (prepXacts (sample_reserved 5)). gid (gxacts (sample_reserved 5) x) = ''t1'')"
    by code_simp
  have h4: "length ''t2'' < GIDSIZE \<and> max_prepared_xacts ?s1 \<noteq> 0 \<and>
     \<not> (\<exists>x \<in> set (prepXacts ?s1). gid (gxacts ?s1 x) = ''t2'') \<and> freeGXacts ?s1 = []"
    by code_simp
  have h6: "distinct (map request_gid ?rs) \<and> (\<forall>r \<in> set ?rs. length (request_gid r) < GIDSIZE)"
    by (simp add: request_gid_def GIDSIZE_def)
  note t = MarkAsPreparing_failures_and_capacity
  show ?thesis
    using h1 h2 h3 h4 h6
      t [of "replicate 200 CHR ''a''" 100 sample_ldx 77 10 5 0 "sample_boot 2" "[]" ?b]
      t [of "''t1''" 100 sample_ldx 77 10 5 0 "sample_boot 0" "[]" ?b]
      t [of "''t1''" 101 sample_ldx 78 11 5 0 "sample_reserved 5" "[]" ?b]
      t [of "''t2''" 100 sample_ldx 77 10 5 0 ?s1 ?rs ?b]
    unfolding sample_boot_def [symmetric, of 2]
    by (simp add: sample_boot_def [of 2])
qed

lemma LockGXact_char:
  "LockGXact su g user raise s =
     (case valid_match s g of
        None \<Rightarrow> (if raise then Inl NotFound else Inr None, s\<lparr>twophaseExitRegistered := True\<rparr>)
      | Some x \<Rightarrow>
          (case LockGXact_decide su user (s\<lparr>twophaseExitRegistered := True\<rparr>) x of
             (Inl e, s') \<Rightarrow> (Inl e, s')
           | (Inr y, s') \<Rightarrow> (Inr (Some y), s')))"
  by (auto simp: LockGXact_def Let_def LockGXact_loop_find valid_match_def
      split: option.splits sum.splits prod.splits)

text \<open>
  Claim C4, as amended. \<open>LockGXact\<close> (Lookup) looks at valid entries only and lets the first
  valid entry carrying the GID decide. Without such an entry it fails with \<open>NotFound\<close> when
  \<open>raiseErrorIfNotFound\<close> is set and returns no entry, without error, when it is not. With
  such an entry it fails with \<open>Busy\<close> when the entry is locked; otherwise with
  \<open>PermissionDenied\<close> when the requester is neither the owner nor a superuser; otherwise with
  \<open>OtherDatabase\<close> when the entry belongs to a database other than the one of the backend
  and the backend is not in the executor role; otherwise it locks the entry for the backend
  and returns it. Every failure leaves the table as it was.
\<close>

theorem LockGXact_outcomes:
  "(valid_match s g = None \<longrightarrow>
      LockGXact su g user raise s =
        (if raise then Inl NotFound else Inr None, s\<lparr>twophaseExitRegistered := True\<rparr>)) \<and>
   (\<forall>x. valid_match s g = Some x \<longrightarrow>
      valid (gxacts s x) \<and> gid (gxacts s x) = g \<and> x \<in> set (prepXacts s) \<and>
      (locking_backend (gxacts s x) \<noteq> InvalidBackendId \<longrightarrow>
         LockGXact su g user raise s = (Inl Busy, s\<lparr>twophaseExitRegistered := True\<rparr>)) \<and>
      (locking_backend (gxacts s x) = InvalidBackendId \<and>
       user \<noteq> owner (gxacts s x) \<and> \<not> su user \<longrightarrow>
         LockGXact su g user raise s =
           (Inl PermissionDenied, s\<lparr>twophaseExitRegistered := True\<rparr>)) \<and>
      (locking_backend (gxacts s x) = InvalidBackendId \<and>
       (user = owner (gxacts s x) \<or> su user) \<and>
       MyDatabaseId s \<noteq> databaseId (allProcs s (pgprocno (gxacts s x))) \<and>
       Gp_role s \<noteq> GP_ROLE_EXECUTE \<longrightarrow>
         LockGXact su g user raise s =
           (Inl OtherDatabase, s\<lparr>twophaseExitRegistered := True\<rparr>)) \<and>
      (locking_backend (gxacts s x) = InvalidBackendId \<and>
       (user = owner (gxacts s x) \<or> su user) \<and>
       (MyDatabaseId s = databaseId (allProcs s (pgprocno (gxacts s x))) \<or>
        Gp_role s = GP_ROLE_EXECUTE) \<longrightarrow>
         LockGXact su g user raise s =
           (Inr (Some x),
            s\<lparr>twophaseExitRegistered := True,
              gxacts := (gxacts s)(x := (gxacts s x)\<lparr>locking_backend := MyBackendId s\<rparr>),
              MyLockedGxact := Some x\<rparr>)))"
proof (intro conjI allI impI)
  assume "valid_match s g = None"
  then show "LockGXact su g user raise s =
        (if raise then Inl NotFound else Inr None, s\<lparr>twophaseExitRegistered := True\<rparr>)"
    by (simp add: LockGXact_char)
next
  fix x assume m: "valid_match s g = Some x"
  then show "valid (gxacts s x)" "gid (gxacts s x) = g" "x \<in> set (prepXacts s)"
    by (auto simp: valid_match_def find_Some_iff)
  {
    assume "locking_backend (gxacts s x) \<noteq> InvalidBackendId"
    then show "LockGXact su g user raise s = (Inl Busy, s\<lparr>twophaseExitRegistered := True\<rparr>)"
      using m by (simp add: LockGXact_char LockGXact_decide_def)
  next
    assume "locking_backend (gxacts s x) = InvalidBackendId \<and>
       user \<noteq> owner (gxacts s x) \<and> \<not> su user"
    then show "LockGXact su g user raise s =
           (Inl PermissionDenied, s\<lparr>twophaseExitRegistered := True\<rparr>)"
      using m by (simp add: LockGXact_char LockGXact_decide_def)
  next
    assume "locking_backend (gxacts s x) = InvalidBackendId \<and>
       (user = owner (gxacts s x) \<or> su user) \<and>
       MyDatabaseId s \<noteq> databaseId (allProcs s (pgprocno (gxacts s x))) \<and>
       Gp_role s \<noteq> GP_ROLE_EXECUTE"
    then show "LockGXact su g user raise s =
           (Inl OtherDatabase, s\<lparr>twophaseExitRegistered := True\<rparr>)"
      using m by (auto simp: LockGXact_char LockGXact_decide_def)
  next
    assume "locking_backend (gxacts s x) = InvalidBackendId \<and>
       (user = owner (gxacts s x) \<or> su user) \<and>
       (MyDatabaseId s = databaseId (allProcs s (pgprocno (gxacts s x))) \<or>
        Gp_role s = GP_ROLE_EXECUTE)"
    then show "LockGXact su g user raise s =
           (Inr (Some x),
            s\<lparr>twophaseExitRegistered := True,
              gxacts := (gxacts s)(x := (gxacts s x)\<lparr>locking_backend := MyBackendId s\<rparr>),
              MyLockedGxact := Some x\<rparr>)"
      using m by (auto simp: LockGXact_char LockGXact_decide_def)
  }
qed

theorem LockGXact_outcomes_witness:
  "LockGXact (\<lambda>u. False) ''t9'' 10 False (sample_prepared 5)
     = (Inr None, (sample_prepared 5)\<lparr>twophaseExitRegistered := True\<rparr>) \<and>
   LockGXact (\<lambda>u. False) ''t9'' 10 True (sample_prepared 5)
     = (Inl NotFound, (sample_prepared 5)\<lparr>twophaseExitRegistered := True\<rparr>) \<and>
   LockGXact (\<lambda>u. False) ''t1'' 10 True (sample_reserved 5)
     = (Inl NotFound, (sample_reserved 5)\<lparr>twophaseExitRegistered := True\<rparr>) \<and>
   fst (LockGXact (\<lambda>u. False) ''t1'' 10 True
          (snd (LockGXact (\<lambda>u. False) ''t1'' 10 True (sample_prepared 5)))) = Inl Busy \<and>
   fst (LockGXact (\<lambda>u. False) ''t1'' 11 True (sample_prepared 5)) = Inl PermissionDenied \<and>
   fst (LockGXact (\<lambda>u. False) ''t1'' 10 True (sample_prepared 7)) = Inl OtherDatabase \<and>
   fst (LockGXact (\<lambda>u. False) ''t1'' 10 True (sample_prepared 5)) = Inr (Some 1) \<and>
   locking_backend (gxacts (snd (LockGXact (\<lambda>u. False) ''t1'' 10 True (sample_prepared 5))) 1) = 1"
proof -
  let ?su = "\<lambda>u::Oid. False"
  let ?l = "snd (LockGXact ?su ''t1'' 10 True (sample_prepared 5))"
  have m0: "valid_match (sample_prepared 5) ''t9'' = None" by code_simp
  have m1: "valid_match (sample_reserved 5) ''t1'' = None" by code_simp
  have m2: "valid_match ?l ''t1'' = Some 1 \<and> locking_backend (gxacts ?l 1) \<noteq> InvalidBackendId"
    by code_simp
  have m3: "valid_match (sample_prepared 5) ''t1'' = Some 1 \<and>
     locking_backend (gxacts (sample_prepared 5) 1) = InvalidBackendId \<and>
     11 \<noteq> owner (gxacts (sample_prepared 5) 1) \<and> \<not> ?su 11"
    by code_simp
  have m4: "valid_match (sample_prepared 7) ''t1'' = Some 1 \<and>
     locking_backend (gxacts (sample_prepared 7) 1) = InvalidBackendId \<and>
     (10 = owner (gxacts (sample_prepared 7) 1) \<or> ?su 10) \<and>
     MyDatabaseId (sample_prepared 7)
       \<noteq> databaseId (allProcs (sample_prepared 7) (pgprocno (gxacts (sample_prepared 7) 1))) \<and>
     Gp_role (sample_prepared 7) \<noteq> GP_ROLE_EXECUTE"
    by code_simp
  have m5: "valid_match (sample_prepared 5) ''t1'' = Some 1 \<and>
     locking_backend (gxacts (sample_prepared 5) 1) = InvalidBackendId \<and>
     (10 = owner (gxacts (sample_prepared 5) 1) \<or> ?su 10) \<and>
     (MyDatabaseId (sample_prepared 5)
       = databaseId (allProcs (sample_prepared 5) (pgprocno (gxacts (sample_prepared 5) 1))) \<or>
     Gp_role (sample_prepared 5) = GP_ROLE_EXECUTE)"
    by code_simp
  have b: "MyBackendId (sample_prepared 5) = 1" by code_simp
  note t = LockGXact_outcomes
  show ?thesis
    using m0 m1 m2 m3 m4 m5 b
      t [of "sample_prepared 5" "''t9''" ?su 10 False]
      t [of "sample_prepared 5" "''t9''" ?su 10 True]
      t [of "sample_reserved 5" "''t1''" ?su 10 True]
      t [of ?l "''t1''" ?su 10 True]
      t [of "sample_prepared 5" "''t1''" ?su 11 True]
      t [of "sample_prepared 7" "''t1''" ?su 10 True]
      t [of "sample_prepared 5" "''t1''" ?su 10 True]
    by simp
qed

text \<open>
  Claim C4 as stated lets the call lock the entry whenever the entry is valid, carries the
  GID, is not locked and the requester may finish it. In the sample state the entry \<open>t1\<close>
  was prepared in database 7 by user 10 and is not locked; the backend is connected to
  database 5 in the dispatcher role; the call of user 10 fails and the entry stays unlocked.
\<close>

theorem LockGXact_other_database_counterexample:
  "valid_match (sample_prepared 7) ''t1'' = Some 1 \<and>
   locking_backend (gxacts (sample_prepared 7) 1) = InvalidBackendId \<and>
   owner (gxacts (sample_prepared 7) 1) = 10 \<and>
   fst (LockGXact (\<lambda>u. False) ''t1'' 10 True (sample_prepared 7)) = Inl OtherDatabase \<and>
   locking_backend (gxacts (snd (LockGXact (\<lambda>u. False) ''t1'' 10 True (sample_prepared 7))) 1)
     = InvalidBackendId"
  by code_simp

text \<open>
  Claim C10. When the first valid entry carrying the GID belongs to a database other than
  the one of the backend and the backend is not in the executor role, \<open>LockGXact\<close> fails and
  changes nothing in the table, whoever the requester is; for an unlocked entry and a
  requester who is the owner or a superuser the error is \<open>OtherDatabase\<close>. In the executor
  role the same call locks the entry.
\<close>

theorem LockGXact_other_database:
  assumes "valid_match s g = Some x"
    and "MyDatabaseId s \<noteq> databaseId (allProcs s (pgprocno (gxacts s x)))"
  shows "(Gp_role s \<noteq> GP_ROLE_EXECUTE \<longrightarrow>
           isl (fst (LockGXact su g user raise s)) \<and>
           snd (LockGXact su g user raise s) = s\<lparr>twophaseExitRegistered := True\<rparr> \<and>
           (locking_backend (gxacts s x) = InvalidBackendId \<and>
            (user = owner (gxacts s x) \<or> su user) \<longrightarrow>
              fst (LockGXact su g user raise s) = Inl OtherDatabase)) \<and>
         (Gp_role s = GP_ROLE_EXECUTE \<and> locking_backend (gxacts s x) = InvalidBackendId \<and>
          (user = owner (gxacts s x) \<or> su user) \<longrightarrow>
            fst (LockGXact su g user raise s) = Inr (Some x) \<and>
            locking_backend (gxacts (snd (LockGXact su g user raise s)) x) = MyBackendId s)"
  using assms by (auto simp: LockGXact_char LockGXact_decide_def)

theorem LockGXact_other_database_witness:
  "isl (fst (LockGXact (\<lambda>u. True) ''t1'' 10 True (sample_prepared 7))) \<and>
   snd (LockGXact (\<lambda>u. True) ''t1'' 10 True (sample_prepared 7))
     = (sample_prepared 7)\<lparr>twophaseExitRegistered := True\<rparr> \<and>
   fst (LockGXact (\<lambda>u. True) ''t1'' 10 True (sample_prepared 7)) = Inl OtherDatabase \<and>
   fst (LockGXact (\<lambda>u. True) ''t1'' 10 True ((sample_prepared 7)\<lparr>Gp_role := GP_ROLE_EXECUTE\<rparr>))
     = Inr (Some 1)"
proof -
  let ?su = "\<lambda>u::Oid. True"
  let ?e = "(sample_prepared 7)\<lparr>Gp_role := GP_ROLE_EXECUTE\<rparr>"
  have a: "valid_match (sample_prepared 7) ''t1'' = Some 1" by code_simp
  have b: "MyDatabaseId (sample_prepared 7)
       \<noteq> databaseId (allProcs (sample_prepared 7) (pgprocno (gxacts (sample_prepared 7) 1)))"
    by code_simp
  have c: "Gp_role (sample_prepared 7) \<noteq> GP_ROLE_EXECUTE \<and>
           locking_backend (gxacts (sample_prepared 7) 1) = InvalidBackendId \<and>
           10 = owner (gxacts (sample_prepared 7) 1)"
    by code_simp
  have a': "valid_match ?e ''t1'' = Some 1" by code_simp
  have b': "MyDatabaseId ?e \<noteq> databaseId (allProcs ?e (pgprocno (gxacts ?e 1)))"
    by code_simp
  have c': "Gp_role ?e = GP_ROLE_EXECUTE \<and>
           locking_backend (gxacts ?e 1) = InvalidBackendId \<and> 10 = owner (gxacts ?e 1)"
    by code_simp
  show ?thesis
    using c c' LockGXact_other_database [OF a b, of ?su 10 True]
      LockGXact_other_database [OF a' b', of ?su 10 True]
    by simp
qed

lemma RemoveGXact_member:
  assumes "x \<in> set (prepXacts s)" "distinct (prepXacts s)"
  shows "\<exists>s'. RemoveGXact x s = (Inr (), s') \<and>
           set (prepXacts s') = set (prepXacts s) - {x} \<and> distinct (prepXacts s') \<and>
           length (prepXacts s') = length (prepXacts s) - 1 \<and>
           freeGXacts s' = x # freeGXacts s \<and>
           s' = s\<lparr>prepXacts := prepXacts s', freeGXacts := x # freeGXacts s\<rparr>"
proof -
  from RemoveGXact_find_mem [OF assms(1), of 0]
  obtain i where i: "RemoveGXact_find x (prepXacts s) 0 = Some i" by blast
  from RemoveGXact_find_Some [OF i] have j: "i < length (prepXacts s)" "prepXacts s ! i = x"
    by auto
  show ?thesis
    using i j swap_last_remove [OF assms(2) j(1)]
    by (simp add: RemoveGXact_def)
qed

text \<open>
  Claim C8. Let the backend hold the lock on an active entry of a table without repeated
  slots. When the entry is not valid, \<open>AtAbort_Twophase\<close> takes it out of the active array
  and puts it at the head of the free list; when it is valid, the entry stays where it is
  and nothing but its \<open>locking_backend\<close> changes, which becomes \<open>InvalidBackendId\<close>. In both
  cases the backend forgets the entry.
\<close>

theorem AtAbort_Twophase_outcomes:
  assumes "MyLockedGxact s = Some x" "x \<in> set (prepXacts s)" "distinct (prepXacts s)"
  shows "(\<not> valid (gxacts s x) \<longrightarrow>
           (\<exists>s'. AtAbort_Twophase s = (Inr (), s') \<and>
              x \<notin> set (prepXacts s') \<and> set (prepXacts s') = set (prepXacts s) - {x} \<and>
              numPrepXacts s' = numPrepXacts s - 1 \<and>
              freeGXacts s' = x # freeGXacts s \<and> MyLockedGxact s' = None)) \<and>
         (valid (gxacts s x) \<longrightarrow>
            AtAbort_Twophase s =
              (Inr (), s\<lparr>gxacts := (gxacts s)(x := (gxacts s x)\<lparr>locking_backend := InvalidBackendId\<rparr>),
                        MyLockedGxact := None\<rparr>))"
proof (intro conjI impI)
  assume nv: "\<not> valid (gxacts s x)"
  from RemoveGXact_member [OF assms(2,3)] obtain s1 where
    s1: "RemoveGXact x s = (Inr (), s1)" "set (prepXacts s1) = set (prepXacts s) - {x}"
      "length (prepXacts s1) = length (prepXacts s) - 1" "freeGXacts s1 = x # freeGXacts s"
    by blast
  show "\<exists>s'. AtAbort_Twophase s = (Inr (), s') \<and>
              x \<notin> set (prepXacts s') \<and> set (prepXacts s') = set (prepXacts s) - {x} \<and>
              numPrepXacts s' = numPrepXacts s - 1 \<and>
              freeGXacts s' = x # freeGXacts s \<and> MyLockedGxact s' = None"
    using assms(1) nv s1 by (simp add: AtAbort_Twophase_def numPrepXacts_def)
next
  assume "valid (gxacts s x)"
  then show "AtAbort_Twophase s =
              (Inr (), s\<lparr>gxacts := (gxacts s)(x := (gxacts s x)\<lparr>locking_backend := InvalidBackendId\<rparr>),
                        MyLockedGxact := None\<rparr>)"
    using assms(1) by (simp add: AtAbort_Twophase_def)
qed

theorem AtAbort_Twophase_outcomes_witness:
  "prepXacts (snd (AtAbort_Twophase (sample_reserved 5))) = [] \<and>
   freeGXacts (snd (AtAbort_Twophase (sample_reserved 5))) = [1, 0] \<and>
   prepXacts (snd (AtAbort_Twophase (MarkAsPrepared 1 (sample_reserved 5)))) = [1] \<and>
   locking_backend (gxacts (snd (AtAbort_Twophase (MarkAsPrepared 1 (sample_reserved 5)))) 1)
     = InvalidBackendId \<and>
   valid (gxacts (snd (AtAbort_Twophase (MarkAsPrepared 1 (sample_reserved 5)))) 1)"
proof -
  let ?r = "sample_reserved 5"
  let ?p = "MarkAsPrepared 1 (sample_reserved 5)"
  have r: "MyLockedGxact ?r = Some 1" "1 \<in> set (prepXacts ?r)" "distinct (prepXacts ?r)"
    by code_simp+
  have p: "MyLockedGxact ?p = Some 1" "1 \<in> set (prepXacts ?p)" "distinct (prepXacts ?p)"
    by code_simp+
  have v: "\<not> valid (gxacts ?r 1)" "valid (gxacts ?p 1)" "prepXacts ?r = [1]" "prepXacts ?p = [1]"
    "freeGXacts ?r = [0]"
    by code_simp+
  show ?thesis
    using v AtAbort_Twophase_outcomes [OF r] AtAbort_Twophase_outcomes [OF p]
    by auto
qed

subsection \<open>Recorded steps\<close>

lemma events_log_event [simp]: "events (log_event e s) = events s @ [e]"
  by (simp add: log_event_def)

lemma snapshots_log_event [simp]: "snapshots (log_event e s) = snapshots s @ [snapshot_of s]"
  by (simp add: log_event_def)

lemma log_event_fields [simp]:
  "tp (log_event e s) = tp s" "xlog (log_event e s) = xlog s" "clog (log_event e s) = clog s"
  "recover_map (log_event e s) = recover_map s" "nextXid (log_event e s) = nextXid s"
  "records (log_event e s) = records s"
  by (simp_all add: log_event_def)

lemma snapshot_of_log_event [simp]: "snapshot_of (log_event e s) = snapshot_of s"
  by (simp add: snapshot_of_def)

declare ProcessRecords.simps [simp del]

subsection \<open>Integers in memory\<close>

lemma length_wr_le [simp]: "length (wr_le n w) = n"
  by (induction n arbitrary: w) simp_all

lemma rd_le_wr_le:
  "(rd_le (wr_le n (w :: 'a::len word)) :: 'a word) = take_bit (8 * n) w"
proof (induction n arbitrary: w)
  case 0
  then show ?case by simp
next
  case (Suc n)
  show ?case
  proof (rule bit_word_eqI)
    fix k assume k: "k < LENGTH('a)"
    show "bit (rd_le (wr_le (Suc n) w) :: 'a word) k = bit (take_bit (8 * Suc n) w) k"
    proof (cases "k < 8")
      case True
      then show ?thesis using k by (simp add: Suc bit_simps)
    next
      case False
      then have "8 + (k - 8) = k" by simp
      then show ?thesis using k False by (auto simp: Suc bit_simps)
    qed
  qed
qed

lemma length_le16 [simp]: "length (le16 w) = 2"
  by (simp add: le16_def)

lemma length_le32 [simp]: "length (le32 w) = 4"
  by (simp add: le32_def)

lemma length_le64 [simp]: "length (le64 w) = 8"
  by (simp add: le64_def)

lemma rd16_le16 [simp]: "rd16 (le16 w @ bs) = w"
  by (simp add: rd16_def le16_def rd_le_wr_le take_bit_word_eq_self)

lemma rd32_le32 [simp]: "rd32 (le32 w @ bs) = w"
  by (simp add: rd32_def le32_def rd_le_wr_le take_bit_word_eq_self)

lemma rd64_le64 [simp]: "rd64 (le64 w @ bs) = w"
  by (simp add: rd64_def le64_def rd_le_wr_le take_bit_word_eq_self)

lemma rd32_le32' [simp]: "rd32 (le32 w) = w"
  using rd32_le32 [of w "[]"] by simp

lemma of_char_less_256: "of_char c < (256::nat)"
  by (metis of_char_mod_256 mod_less_divisor zero_less_numeral)

lemma char_of_byte_of_char [simp]: "char_of_byte (byte_of_char c) = c"
  using of_char_less_256 [of c]
  by (simp add: byte_of_char_def char_of_byte_def unat_of_nat take_bit_nat_eq_self)

lemma byte_of_char_eq_0: "byte_of_char c = 0 \<longleftrightarrow> c = CHR 0x00"
proof
  assume a: "byte_of_char c = 0"
  have "c = char_of_byte (byte_of_char c)" by simp
  also have "\<dots> = char_of_byte 0" by (simp only: a)
  also have "\<dots> = CHR 0x00" by code_simp
  finally show "c = CHR 0x00" .
next
  assume "c = CHR 0x00"
  then show "byte_of_char c = 0" by (simp add: byte_of_char_def)
qed

lemma cstring_roundtrip:
  assumes "CHR 0x00 \<notin> set g"
  shows "cstring (map byte_of_char g @ 0 # bs) = g"
proof -
  have "\<forall>b \<in> set (map byte_of_char g). b \<noteq> 0"
    using assms by (auto simp: byte_of_char_eq_0)
  then have "takeWhile (\<lambda>b. b \<noteq> 0) (map byte_of_char g @ 0 # bs) = map byte_of_char g"
    by (subst takeWhile_append2) auto
  then show ?thesis by (simp add: cstring_def comp_def)
qed

lemma read_xids_image: "read_xids (length xs) (xids_image xs @ bs) = xs"
proof -
  have "\<And>i. i < length xs \<Longrightarrow> rd32 (drop (4 * i) (xids_image xs @ bs)) = xs ! i"
  proof (induction xs)
    case Nil
    then show ?case by simp
  next
    case (Cons a xs)
    show ?case
    proof (cases i)
      case 0
      then show ?thesis by (simp add: xids_image_def)
    next
      case (Suc j)
      then have "drop (4 * i) (xids_image (a # xs) @ bs) = drop (4 * j) (xids_image xs @ bs)"
        by (simp add: xids_image_def)
      then show ?thesis using Cons Suc by simp
    qed
  qed
  then show ?thesis
    by (intro nth_equalityI) (simp_all add: read_xids_def)
qed

lemma length_xids_image [simp]: "length (xids_image xs) = 4 * length xs"
  by (induction xs) (simp_all add: xids_image_def)

subsection \<open>Alignment and slices\<close>

lemma MAXALIGN_ge: "n \<le> MAXALIGN n"
  unfolding MAXALIGN_def by arith

lemma MAXALIGN_0 [simp]: "MAXALIGN 0 = 0"
  by (simp add: MAXALIGN_def)

lemma MAXALIGN_dvd: "8 dvd MAXALIGN n"
  by (simp add: MAXALIGN_def)

lemma MAXALIGN_idem: "8 dvd n \<Longrightarrow> MAXALIGN n = n"
  by (auto simp: MAXALIGN_def elim!: dvdE)

lemma slice_append:
  "length pre = off \<Longrightarrow> length d = n \<Longrightarrow> slice off n (pre @ d @ post) = Some d"
  by (simp add: slice_def)

subsection \<open>Pointer arithmetic\<close>

lemma MAXALIGN_le: "MAXALIGN k \<le> k + 7"
  by (simp add: MAXALIGN_def)

lemma and_not_7: "(w::64 word) AND NOT 7 = push_bit 3 (drop_bit 3 w)"
proof -
  have "(7::64 word) = mask 3" by (simp add: mask_eq_exp_minus_1)
  then show ?thesis
    by (auto simp add: bit_eq_iff bit_simps not_less)
qed

lemma len64_eq: "LENGTH(64) = 64"
  by simp

lemma MAXALIGN64_of_nat:
  assumes "k + 7 < 2 ^ 64"
  shows "MAXALIGN64 (of_nat k) = of_nat (MAXALIGN k)"
proof -
  have m: "MAXALIGN k < 2 ^ 64" using assms by (simp add: MAXALIGN_def)
  have "unat (MAXALIGN64 (of_nat k)) = unat (push_bit 3 (drop_bit 3 (of_nat (k + 7) :: 64 word)))"
    unfolding MAXALIGN64_def and_not_7 by simp
  also have "\<dots> = take_bit 64 (push_bit 3 (drop_bit 3 (unat (of_nat (k + 7) :: 64 word))))"
    by (simp only: unsigned_push_bit_eq unat_drop_bit_eq len64_eq)
  also have "\<dots> = take_bit 64 (push_bit 3 (drop_bit 3 (k + 7)))"
    using assms by (simp add: unat_of_nat take_bit_nat_eq_self del: of_nat_add)
  also have "\<dots> = MAXALIGN k"
    using m by (simp add: take_bit_nat_eq_self push_bit_eq_mult drop_bit_eq_div MAXALIGN_def)
  finally have "unat (MAXALIGN64 (of_nat k)) = unat (of_nat (MAXALIGN k) :: 64 word)"
    using m by (simp add: unat_of_nat take_bit_nat_eq_self)
  then show ?thesis by (simp add: word_unat_eq_iff)
qed

lemma count_of_nonneg:
  assumes "0 \<le>s n"
  shows "count_of n = unat n" and "sint n = int (unat n)"
proof -
  from assms have nn: "0 \<le> sint n" by (simp add: word_sle_eq)
  have nb: "\<not> bit (uint n) 31"
    using nn bit_last_iff [of n] by (simp add: bit_uint_iff)
  have "sint n = uint n"
    unfolding sint_uint using nb
    by (simp add: signed_take_bit_eq_take_bit_minus take_bit_int_eq_self_iff
        uint_bounded [of n, simplified])
  then show "sint n = int (unat n)" by simp
  show "count_of n = unat n"
  proof (cases "0 <s n")
    case True
    then show ?thesis by (simp add: count_of_def)
  next
    case False
    with nn have "sint n = 0" by (simp add: word_sless_alt)
    then have "n = 0" by (simp add: signed_eq_0_iff)
    then show ?thesis by (simp add: count_of_def)
  qed
qed

lemma array_size_count:
  assumes "0 \<le>s n"
  shows "array_size n sz = of_nat (count_of n * sz)"
proof -
  have "scast n = (of_nat (unat n) :: 64 word)"
    using count_of_nonneg(2) [OF assms] by (simp add: scast_eq)
  then show ?thesis
    by (simp add: array_size_def count_of_nonneg(1) [OF assms])
qed

lemma bufptr_add_of_nat:
  assumes "off + k < 2 ^ 64"
  shows "bufptr_add off (of_nat k) = off + k"
proof -
  have "(of_nat off + of_nat k :: 64 word) = of_nat (off + k)" by simp
  then show ?thesis
    unfolding bufptr_add_def using assms
    by (simp add: unat_of_nat take_bit_nat_eq_self del: of_nat_add)
qed

lemma bufptr_add_array:
  assumes "0 \<le>s n" "count_of n * sz \<le> MaxAllocSize" "off < 2 ^ 40"
  shows "bufptr_add off (MAXALIGN64 (array_size n sz)) = off + MAXALIGN (count_of n * sz)"
proof -
  have "MAXALIGN (count_of n * sz) \<le> 1073741823 + 7"
    using assms(2) MAXALIGN_le [of "count_of n * sz"] by (simp add: MaxAllocSize_def)
  then show ?thesis
    using assms unfolding array_size_count [OF assms(1)]
    by (simp add: MAXALIGN64_of_nat bufptr_add_of_nat MaxAllocSize_def del: of_nat_mult)
qed

lemma rdata_len_small:
  assumes "0 \<le>s n" "count_of n * sz \<le> MaxAllocSize"
  shows "rdata_len n sz = count_of n * sz"
proof -
  have "count_of n * sz < 2 ^ 32"
    using assms(2) by (simp add: MaxAllocSize_def)
  then show ?thesis
    unfolding rdata_len_def array_size_count [OF assms(1)]
    by (simp add: unsigned_ucast_eq unat_of_nat take_bit_nat_eq_self del: of_nat_mult)
qed

subsection \<open>The state file\<close>

lemma length_TwoPhaseFileHeader_image:
  "length (hdr_gid h) \<le> GIDSIZE \<Longrightarrow>
   length (TwoPhaseFileHeader_image u h) = sizeof_TwoPhaseFileHeader"
  by (simp add: TwoPhaseFileHeader_image_def sizeof_TwoPhaseFileHeader_def GIDSIZE_def)

lemma read_TwoPhaseFileHeader_image:
  assumes "gid_ok (hdr_gid h)"
  shows "read_TwoPhaseFileHeader (TwoPhaseFileHeader_image u h @ rest) = h"
proof -
  from assms have l: "length (hdr_gid h) < 200" and z: "CHR 0x00 \<notin> set (hdr_gid h)"
    by (simp_all add: gid_ok_def GIDSIZE_def)
  obtain k where k: "200 - length (hdr_gid h) = Suc k"
    using l by (metis Suc_diff_Suc)
  define tl where "tl = replicate k (0::byte) @ u 245 # u 246 # u 247 # rest"
  have g: "cstring (map byte_of_char (hdr_gid h) @ replicate (200 - length (hdr_gid h)) 0 @
             u 245 # u 246 # u 247 # rest) = hdr_gid h"
    using cstring_roundtrip [OF z, of tl] by (simp add: k tl_def)
  have "read_TwoPhaseFileHeader (TwoPhaseFileHeader_image u h @ rest) =
        \<lparr>hdr_magic = hdr_magic h, hdr_total_len = hdr_total_len h,
         hdr_xid = hdr_xid h, hdr_database = hdr_database h,
         hdr_prepared_at = hdr_prepared_at h, hdr_owner = hdr_owner h,
         hdr_nsubxacts = hdr_nsubxacts h, hdr_ncommitrels = hdr_ncommitrels h,
         hdr_nabortrels = hdr_nabortrels h, hdr_ninvalmsgs = hdr_ninvalmsgs h,
         hdr_initfileinval = hdr_initfileinval h, hdr_gid = hdr_gid h\<rparr>"
    by (simp add: read_TwoPhaseFileHeader_def TwoPhaseFileHeader_image_def GIDSIZE_def g)
  then show ?thesis by simp
qed

lemma length_TwoPhaseRecordOnDisk_image [simp]:
  "length (TwoPhaseRecordOnDisk_image u r) = sizeof_TwoPhaseRecordOnDisk"
  by (simp add: TwoPhaseRecordOnDisk_image_def sizeof_TwoPhaseRecordOnDisk_def)

lemma read_TwoPhaseRecordOnDisk_image:
  "read_TwoPhaseRecordOnDisk (TwoPhaseRecordOnDisk_image u r @ rest) = r"
  by (simp add: read_TwoPhaseRecordOnDisk_def TwoPhaseRecordOnDisk_image_def)

lemma length_padded [simp]: "length (padded u d) = MAXALIGN (length d)"
  using MAXALIGN_ge [of "length d"] by (simp add: padded_def)

lemma padded_Nil [simp]: "padded u [] = []"
  by (simp add: padded_def)

lemma padded_aligned: "8 dvd length d \<Longrightarrow> padded u d = d"
  by (simp add: padded_def MAXALIGN_idem)

lemma MAXALIGN_no_wrap:
  "n \<le> MaxAllocSize \<Longrightarrow> MAXALIGN n mod 4294967296 = MAXALIGN n"
  unfolding MAXALIGN_def MaxAllocSize_def by simp

lemma xllist_stream_save_state_data:
  "length d \<le> MaxAllocSize \<Longrightarrow>
   xllist_stream (save_state_data u d r) = xllist_stream r @ padded u d"
  by (simp add: save_state_data_def xllist_stream_def padded_def Let_def MAXALIGN_no_wrap)

lemma xl_total_len_save_state_data:
  "length d \<le> MaxAllocSize \<Longrightarrow>
   xl_total_len (save_state_data u d r) = xl_total_len r + of_nat (MAXALIGN (length d))"
  by (simp add: save_state_data_def Let_def MAXALIGN_no_wrap)

lemma small_MaxAllocSize [simp]: "8 \<le> MaxAllocSize" "248 \<le> MaxAllocSize" "0 \<le> MaxAllocSize"
  by (simp_all add: MaxAllocSize_def)

lemma xllist_stream_RegisterTwoPhaseRecord:
  "length d \<le> MaxAllocSize \<Longrightarrow>
   xllist_stream (RegisterTwoPhaseRecord u rm i d r) =
     xllist_stream r @ rmgr_record_image u (rm, i, d)"
  by (simp add: RegisterTwoPhaseRecord_def Let_def xllist_stream_save_state_data
      rmgr_record_image_def sizeof_TwoPhaseRecordOnDisk_def)

lemma head_block_save_state_data:
  "length (head_block r) \<le> length (head_block (save_state_data u d r))"
  by (auto simp: save_state_data_def head_block_def Let_def split: list.splits)

lemma head_block_RegisterTwoPhaseRecord:
  "length (head_block r) \<le> length (head_block (RegisterTwoPhaseRecord u rm i d r))"
proof -
  let ?r1 = "save_state_data u (TwoPhaseRecordOnDisk_image u
     \<lparr>rec_len = of_nat (length d), rec_rmid = rm, rec_info = i\<rparr>) r"
  have a: "length (head_block r) \<le> length (head_block ?r1)"
    by (rule head_block_save_state_data)
  have b: "length (head_block ?r1) \<le> length (head_block (save_state_data u d ?r1))"
    by (rule head_block_save_state_data)
  show ?thesis
  proof (cases "length d > 0")
    case True
    then show ?thesis using a b by (simp add: RegisterTwoPhaseRecord_def Let_def)
  next
    case False
    then show ?thesis using a by (simp add: RegisterTwoPhaseRecord_def Let_def)
  qed
qed

lemma xllist_stream_set_total_len:
  assumes "8 \<le> length (head_block r)"
  shows "xllist_stream (case xl_blocks r of
           [] \<Rightarrow> r\<lparr>xl_tail := set_total_len v (xl_tail r)\<rparr>
         | b # bs \<Rightarrow> r\<lparr>xl_blocks := set_total_len v b # bs\<rparr>) = set_total_len v (xllist_stream r)"
  using assms
  by (auto simp: xllist_stream_def head_block_def set_total_len_def split: list.splits)

lemma unat_of_nat_small:
  assumes "k < 2 ^ 31"
  shows "unat (of_nat k :: 32 word) = k"
  using assms by (simp add: unat_of_nat)

lemma sint_of_nat_small:
  assumes "k < 2 ^ 31"
  shows "sint (of_nat k :: 32 word) = int k"
proof -
  have u: "uint (of_nat k :: 32 word) = int k"
    using unat_of_nat_small [OF assms] by (metis uint_nat)
  show ?thesis
    using assms by (simp add: sint_uint u signed_take_bit_int_eq_self)
qed

lemma count_of_of_nat:
  assumes "k < 2 ^ 31"
  shows "count_of (of_nat k) = k" and "0 \<le>s (of_nat k :: 32 word)"
    and "0 <s (of_nat k :: 32 word) \<longleftrightarrow> 0 < k"
  using assms sint_of_nat_small [OF assms] unat_of_nat_small [OF assms]
  by (auto simp: count_of_def word_sless_alt word_sle_eq)

text \<open>One optional array of \<open>StartPrepare\<close>.\<close>

lemma save_counted:
  assumes "k < 2 ^ 31" "length d = k * sz" "k * sz \<le> MaxAllocSize"
  shows "xllist_stream (if 0 <s (of_nat k :: 32 word)
            then save_state_data u (take (unat (of_nat k :: 32 word) * sz mod 2 ^ 32) d) r else r)
          = xllist_stream r @ padded u d"
    and "xl_total_len (if 0 <s (of_nat k :: 32 word)
            then save_state_data u (take (unat (of_nat k :: 32 word) * sz mod 2 ^ 32) d) r else r)
          = xl_total_len r + of_nat (length (padded u d))"
    and "length (head_block r) \<le> length (head_block (if 0 <s (of_nat k :: 32 word)
            then save_state_data u (take (unat (of_nat k :: 32 word) * sz mod 2 ^ 32) d) r else r))"
proof -
  have m: "k * sz mod 4294967296 = k * sz"
    using assms(3) by (simp add: MaxAllocSize_def)
  have dl: "length d \<le> MaxAllocSize" using assms(2,3) by simp
  show "xllist_stream (if 0 <s (of_nat k :: 32 word)
            then save_state_data u (take (unat (of_nat k :: 32 word) * sz mod 2 ^ 32) d) r else r)
          = xllist_stream r @ padded u d"
    using assms count_of_of_nat(3) [OF assms(1)] unat_of_nat_small [OF assms(1)] dl
    by (cases "0 < k") (simp_all add: xllist_stream_save_state_data m)
  show "xl_total_len (if 0 <s (of_nat k :: 32 word)
            then save_state_data u (take (unat (of_nat k :: 32 word) * sz mod 2 ^ 32) d) r else r)
          = xl_total_len r + of_nat (length (padded u d))"
    using assms count_of_of_nat(3) [OF assms(1)] unat_of_nat_small [OF assms(1)] dl
    by (cases "0 < k") (simp_all add: xl_total_len_save_state_data m)
  show "length (head_block r) \<le> length (head_block (if 0 <s (of_nat k :: 32 word)
            then save_state_data u (take (unat (of_nat k :: 32 word) * sz mod 2 ^ 32) d) r else r))"
    using head_block_save_state_data by simp
qed

lemma length_concat_fixed:
  "\<forall>x \<in> set xs. length x = sz \<Longrightarrow> length (concat xs) = length xs * sz"
  by (induction xs) simp_all

lemma StartPrepare_records_stream:
  assumes ok: "prepare_data_ok szrel szmsg pd" and hc: "header_counts hdr pd"
    and g: "length (hdr_gid hdr) \<le> GIDSIZE"
  shows "xllist_stream (StartPrepare_records u szrel szmsg hdr pd) =
           padded u (TwoPhaseFileHeader_image u hdr) @
           padded u (xids_image (pd_children pd)) @
           padded u (concat (pd_commitrels pd)) @
           padded u (concat (pd_abortrels pd)) @
           padded u (concat (pd_invalmsgs pd))"
    and "xl_total_len (StartPrepare_records u szrel szmsg hdr pd) =
           of_nat (length (xllist_stream (StartPrepare_records u szrel szmsg hdr pd)))"
    and "sizeof_TwoPhaseFileHeader \<le> length (head_block (StartPrepare_records u szrel szmsg hdr pd))"
proof -
  let ?r0 = "\<lparr>xl_blocks = [], xl_tail = [],
                bytes_free = max sizeof_TwoPhaseFileHeader 512, xl_total_len = 0\<rparr>"
  let ?r1 = "save_state_data u (TwoPhaseFileHeader_image u hdr) ?r0"
  let ?k2 = "length (pd_children pd)"
  let ?r2 = "(if 0 <s (of_nat ?k2 :: 32 word)
                then save_state_data u
                       (take (unat (of_nat ?k2 :: 32 word) * sizeof_TransactionId mod 2 ^ 32)
                          (xids_image (pd_children pd))) ?r1
                else ?r1)"
  let ?k3 = "length (pd_commitrels pd)"
  let ?r3 = "(if 0 <s (of_nat ?k3 :: 32 word)
                then save_state_data u
                       (take (unat (of_nat ?k3 :: 32 word) * szrel mod 2 ^ 32) (concat (pd_commitrels pd))) ?r2
                else ?r2)"
  let ?k4 = "length (pd_abortrels pd)"
  let ?r4 = "(if 0 <s (of_nat ?k4 :: 32 word)
                then save_state_data u
                       (take (unat (of_nat ?k4 :: 32 word) * szrel mod 2 ^ 32) (concat (pd_abortrels pd))) ?r3
                else ?r3)"
  let ?k5 = "length (pd_invalmsgs pd)"
  let ?r5 = "(if 0 <s (of_nat ?k5 :: 32 word)
                then save_state_data u
                       (take (unat (of_nat ?k5 :: 32 word) * szmsg mod 2 ^ 32) (concat (pd_invalmsgs pd))) ?r4
                else ?r4)"
  have eq: "StartPrepare_records u szrel szmsg hdr pd = ?r5"
    using hc by (simp add: StartPrepare_records_def header_counts_def Let_def)
  from ok have k: "?k2 < 2 ^ 31" "?k3 < 2 ^ 31" "?k4 < 2 ^ 31" "?k5 < 2 ^ 31"
    and l3: "length (concat (pd_commitrels pd)) = ?k3 * szrel"
    and l4: "length (concat (pd_abortrels pd)) = ?k4 * szrel"
    and l5: "length (concat (pd_invalmsgs pd)) = ?k5 * szmsg"
    and b: "?k2 * sizeof_TransactionId \<le> MaxAllocSize" "?k3 * szrel \<le> MaxAllocSize"
      "?k4 * szrel \<le> MaxAllocSize" "?k5 * szmsg \<le> MaxAllocSize"
    by (simp_all add: prepare_data_ok_def length_concat_fixed)
  have l2: "length (xids_image (pd_children pd)) = ?k2 * sizeof_TransactionId"
    by (simp add: sizeof_TransactionId_def)
  have hl: "length (TwoPhaseFileHeader_image u hdr) = sizeof_TwoPhaseFileHeader"
    using g by (rule length_TwoPhaseFileHeader_image)
  have hm: "length (TwoPhaseFileHeader_image u hdr) \<le> MaxAllocSize"
    by (simp add: hl sizeof_TwoPhaseFileHeader_def)
  have s1: "xllist_stream ?r1 = padded u (TwoPhaseFileHeader_image u hdr)"
    by (simp add: xllist_stream_save_state_data [OF hm]) (simp add: xllist_stream_def)
  have t1: "xl_total_len ?r1 = of_nat (length (padded u (TwoPhaseFileHeader_image u hdr)))"
    by (simp add: xl_total_len_save_state_data [OF hm])
  have h1: "sizeof_TwoPhaseFileHeader \<le> length (head_block ?r1)"
    using hl MAXALIGN_ge [of sizeof_TwoPhaseFileHeader]
    by (simp add: save_state_data_def head_block_def Let_def sizeof_TwoPhaseFileHeader_def
        MAXALIGN_def)
  note c2 = save_counted [OF k(1) l2 b(1), where u = u and r = "?r1"]
  note c3 = save_counted [OF k(2) l3 b(2), where u = u and r = "?r2"]
  note c4 = save_counted [OF k(3) l4 b(3), where u = u and r = "?r3"]
  note c5 = save_counted [OF k(4) l5 b(4), where u = u and r = "?r4"]
  show "xllist_stream (StartPrepare_records u szrel szmsg hdr pd) =
           padded u (TwoPhaseFileHeader_image u hdr) @
           padded u (xids_image (pd_children pd)) @
           padded u (concat (pd_commitrels pd)) @
           padded u (concat (pd_abortrels pd)) @
           padded u (concat (pd_invalmsgs pd))"
    unfolding eq c5(1) c4(1) c3(1) c2(1) s1 by simp
  show "xl_total_len (StartPrepare_records u szrel szmsg hdr pd) =
           of_nat (length (xllist_stream (StartPrepare_records u szrel szmsg hdr pd)))"
    unfolding eq c5(1,2) c4(1,2) c3(1,2) c2(1,2) s1 t1 by simp
  show "sizeof_TwoPhaseFileHeader \<le> length (head_block (StartPrepare_records u szrel szmsg hdr pd))"
    unfolding eq using h1 c2(3) c3(3) c4(3) c5(3) by linarith
qed

lemma xl_total_len_RegisterTwoPhaseRecord:
  "length d \<le> MaxAllocSize \<Longrightarrow>
   xl_total_len (RegisterTwoPhaseRecord u rm i d r) =
     xl_total_len r + of_nat (length (rmgr_record_image u (rm, i, d)))"
  by (simp add: RegisterTwoPhaseRecord_def Let_def xl_total_len_save_state_data
      rmgr_record_image_def sizeof_TwoPhaseRecordOnDisk_def)

lemma foldl_RegisterTwoPhaseRecord:
  assumes "\<forall>r \<in> set recs. rmgr_record_ok r"
  shows "xllist_stream (foldl (\<lambda>r rc. case rc of (rm, i, d) \<Rightarrow> RegisterTwoPhaseRecord u rm i d r) r recs)
     = xllist_stream r @ concat (map (rmgr_record_image u) recs) \<and>
   xl_total_len (foldl (\<lambda>r rc. case rc of (rm, i, d) \<Rightarrow> RegisterTwoPhaseRecord u rm i d r) r recs)
     = xl_total_len r + of_nat (length (concat (map (rmgr_record_image u) recs))) \<and>
   length (head_block r) \<le> length (head_block
     (foldl (\<lambda>r rc. case rc of (rm, i, d) \<Rightarrow> RegisterTwoPhaseRecord u rm i d r) r recs))"
  using assms
proof (induction recs arbitrary: r)
  case Nil
  then show ?case by simp
next
  case (Cons rc recs)
  obtain rm i d where rce: "rc = (rm, i, d)" by (cases rc) auto
  from Cons.prems have dl: "length d \<le> MaxAllocSize" and rest: "\<forall>r \<in> set recs. rmgr_record_ok r"
    by (simp_all add: rce rmgr_record_ok_def)
  let ?r1 = "RegisterTwoPhaseRecord u rm i d r"
  note ih = Cons.IH [OF rest, of ?r1]
  have h: "length (head_block r) \<le> length (head_block ?r1)"
    by (rule head_block_RegisterTwoPhaseRecord)
  show ?case
    using ih h
    by (simp add: rce xllist_stream_RegisterTwoPhaseRecord [OF dl]
        xl_total_len_RegisterTwoPhaseRecord [OF dl])
qed

lemma set_total_len_image:
  "set_total_len v (TwoPhaseFileHeader_image u h @ rest) =
     TwoPhaseFileHeader_image u (h\<lparr>hdr_total_len := v\<rparr>) @ rest"
  by (simp add: set_total_len_def TwoPhaseFileHeader_image_def)

lemma padded_TwoPhaseFileHeader_image:
  "length (hdr_gid h) \<le> GIDSIZE \<Longrightarrow>
   padded u (TwoPhaseFileHeader_image u h) = TwoPhaseFileHeader_image u h"
  by (rule padded_aligned)
     (simp add: length_TwoPhaseFileHeader_image sizeof_TwoPhaseFileHeader_def)

lemma build_state_file_stream:
  assumes ok: "prepare_data_ok szrel szmsg pd" and hc: "header_counts hdr pd"
    and g: "length (hdr_gid hdr) \<le> GIDSIZE" and rs: "\<forall>r \<in> set recs. rmgr_record_ok r"
  shows "xllist_stream (build_state_file u szrel szmsg hdr pd recs) =
           state_file_layout u
             (hdr\<lparr>hdr_total_len :=
                of_nat (length (xllist_stream (build_state_file u szrel szmsg hdr pd recs))) +
                of_nat sizeof_pg_crc32\<rparr>) pd recs"
proof -
  let ?r = "StartPrepare_records u szrel szmsg hdr pd"
  let ?f = "foldl (\<lambda>r rc. case rc of (rm, i, d) \<Rightarrow> RegisterTwoPhaseRecord u rm i d r) ?r recs"
  let ?r1 = "RegisterTwoPhaseRecord u TWOPHASE_RM_END_ID 0 [] ?f"
  let ?v = "xl_total_len ?r1 + of_nat sizeof_pg_crc32"
  note sp = StartPrepare_records_stream [OF ok hc g, of u]
  note fr = foldl_RegisterTwoPhaseRecord [OF rs, of u ?r]
  have s1: "xllist_stream ?r1 = xllist_stream ?r @ concat (map (rmgr_record_image u) recs) @
              rmgr_record_image u (TWOPHASE_RM_END_ID, 0, [])"
    using fr by (simp add: xllist_stream_RegisterTwoPhaseRecord)
  have t1: "xl_total_len ?r1 = of_nat (length (xllist_stream ?r1))"
    using fr sp(2) by (simp add: s1 xl_total_len_RegisterTwoPhaseRecord)
  have h1: "8 \<le> length (head_block ?r1)"
    using sp(3) fr head_block_RegisterTwoPhaseRecord [of ?f u TWOPHASE_RM_END_ID 0 "[]"]
    by (simp add: sizeof_TwoPhaseFileHeader_def)
  have b: "xllist_stream (build_state_file u szrel szmsg hdr pd recs) =
           set_total_len ?v (xllist_stream ?r1)"
    using xllist_stream_set_total_len [OF h1, of ?v]
    by (simp add: build_state_file_def EndPrepare_records_def Let_def)
  have len: "length (set_total_len ?v (xllist_stream ?r1)) = length (xllist_stream ?r1)"
    using h1 sp(1) g
    by (simp add: s1 set_total_len_def padded_TwoPhaseFileHeader_image
        length_TwoPhaseFileHeader_image sizeof_TwoPhaseFileHeader_def)
  have "set_total_len ?v (xllist_stream ?r1) =
        state_file_layout u (hdr\<lparr>hdr_total_len := ?v\<rparr>) pd recs"
    using g by (simp add: s1 sp(1) padded_TwoPhaseFileHeader_image set_total_len_image
        state_file_layout_def)
  then show ?thesis
    using b len t1 by simp
qed

lemma slice_padded:
  "length pre = off \<Longrightarrow> length d = n \<Longrightarrow> slice off n (pre @ padded u d @ post) = Some d"
  by (simp add: slice_def padded_def)

lemma sentinel_image:
  "rmgr_record_image u (TWOPHASE_RM_END_ID, 0, []) =
     TwoPhaseRecordOnDisk_image u \<lparr>rec_len = 0, rec_rmid = TWOPHASE_RM_END_ID, rec_info = 0\<rparr>"
  by (simp add: rmgr_record_image_def padded_aligned sizeof_TwoPhaseRecordOnDisk_def)

lemma rmgr_record_image_eq:
  "rmgr_record_image u (rm, i, d) =
     TwoPhaseRecordOnDisk_image u \<lparr>rec_len = of_nat (length d), rec_rmid = rm, rec_info = i\<rparr> @
     padded u d"
  by (simp add: rmgr_record_image_def padded_aligned sizeof_TwoPhaseRecordOnDisk_def)

lemma ProcessRecords_layout:
  assumes "\<forall>r \<in> set recs. rmgr_record_ok r"
  shows "ProcessRecords cbs
           (pre @ concat (map (rmgr_record_image u) recs) @
            rmgr_record_image u (TWOPHASE_RM_END_ID, 0, []) @ post) (length pre) x s =
         (Inr (), foldl (apply_callback cbs x) s recs)"
  using assms
proof (induction recs arbitrary: pre s)
  case Nil
  let ?h = "\<lparr>rec_len = 0, rec_rmid = TWOPHASE_RM_END_ID, rec_info = 0\<rparr>"
  have "read_TwoPhaseRecordOnDisk (TwoPhaseRecordOnDisk_image u ?h @ post) = ?h"
    by (rule read_TwoPhaseRecordOnDisk_image)
  then show ?case
    by (subst ProcessRecords.simps) (simp add: sentinel_image Let_def)
next
  case (Cons rc recs)
  obtain rm i d where rce: "rc = (rm, i, d)" by (cases rc) auto
  from Cons.prems have ok: "rm \<noteq> TWOPHASE_RM_END_ID" "length d \<le> MaxAllocSize"
    and rest: "\<forall>r \<in> set recs. rmgr_record_ok r"
    by (simp_all add: rce rmgr_record_ok_def)
  let ?h = "\<lparr>rec_len = of_nat (length d), rec_rmid = rm, rec_info = i\<rparr>"
  let ?hi = "TwoPhaseRecordOnDisk_image u ?h"
  let ?tail = "concat (map (rmgr_record_image u) recs) @
               rmgr_record_image u (TWOPHASE_RM_END_ID, 0, []) @ post"
  let ?buf = "pre @ concat (map (rmgr_record_image u) (rc # recs)) @
              rmgr_record_image u (TWOPHASE_RM_END_ID, 0, []) @ post"
  let ?pre' = "pre @ ?hi @ padded u d"
  have im: "rmgr_record_image u rc = ?hi @ padded u d"
    unfolding rce by (rule rmgr_record_image_eq)
  have buf: "?buf = pre @ ?hi @ padded u d @ ?tail"
    by (simp add: im)
  have buf': "?buf = ?pre' @ ?tail"
    by (simp add: im)
  have rd: "read_TwoPhaseRecordOnDisk (drop (length pre) ?buf) = ?h"
    unfolding buf by (simp add: read_TwoPhaseRecordOnDisk_image)
  have ln: "unat (of_nat (length d) :: 32 word) = length d"
    using ok(2) by (simp add: unat_of_nat MaxAllocSize_def)
  have al: "MAXALIGN sizeof_TwoPhaseRecordOnDisk = 8"
    by (simp add: MAXALIGN_def sizeof_TwoPhaseRecordOnDisk_def)
  have nx: "length pre + MAXALIGN sizeof_TwoPhaseRecordOnDisk + MAXALIGN (length d) = length ?pre'"
    unfolding al by (simp add: sizeof_TwoPhaseRecordOnDisk_def)
  have sl: "slice (length pre + MAXALIGN sizeof_TwoPhaseRecordOnDisk) (length d) ?buf = Some d"
    unfolding buf
    unfolding al
    using slice_padded [of "pre @ ?hi" "length pre + 8" d "length d" u ?tail]
    by (simp add: sizeof_TwoPhaseRecordOnDisk_def)
  have big: "\<not> length ?buf < length pre + sizeof_TwoPhaseRecordOnDisk"
    unfolding buf by simp
  note ih = Cons.IH [OF rest, of ?pre']
  have ac: "apply_callback cbs x s (rm, i, d) = (case cbs rm of None \<Rightarrow> s | Some cb \<Rightarrow> cb x i d s)"
    by (simp add: apply_callback_def)
  show ?case
  proof (cases "cbs rm")
    case None
    have "ProcessRecords cbs ?buf (length pre) x s =
          ProcessRecords cbs ?buf (length ?pre') x s"
      by (subst ProcessRecords.simps) (simp only: big rd Let_def ln nx None ok(1)
          TwoPhaseRecordOnDisk.simps if_False option.case)
    also have "\<dots> = (Inr (), foldl (apply_callback cbs x) s recs)"
      unfolding buf' by (rule ih)
    finally show ?thesis
      by (simp add: rce ac None)
  next
    case (Some cb)
    have "ProcessRecords cbs ?buf (length pre) x s =
          ProcessRecords cbs ?buf (length ?pre') x (cb x i d s)"
      by (subst ProcessRecords.simps) (simp only: big rd Let_def ln nx Some ok(1) sl
          TwoPhaseRecordOnDisk.simps if_False option.case)
    also have "\<dots> = (Inr (), foldl (apply_callback cbs x) (cb x i d s) recs)"
      unfolding buf' by (rule ih)
    finally show ?thesis
      by (simp add: rce ac Some)
  qed
qed

lemma state_file_layout_decode:
  fixes u :: "nat \<Rightarrow> byte" and recs :: "rmgr_record list"
  assumes ok: "prepare_data_ok szrel szmsg pd" and hc: "header_counts h pd"
    and g: "gid_ok (hdr_gid h)"
  defines "sf \<equiv> state_file_layout u h pd recs"
  shows "sizeof_TwoPhaseFileHeader \<le> length sf"
    and "read_TwoPhaseFileHeader sf = h"
    and "xids_at children_at (hdr_nsubxacts h) sf = Some (pd_children pd)"
    and "slice children_at (count_of (hdr_nsubxacts h) * sizeof_TransactionId) sf
           = Some (xids_image (pd_children pd))"
    and "read_xids (count_of (hdr_nsubxacts h)) (xids_image (pd_children pd)) = pd_children pd"
    and "slice (commitrels_at h) (count_of (hdr_ncommitrels h) * szrel) sf
           = Some (concat (pd_commitrels pd))"
    and "slice (abortrels_at szrel h) (count_of (hdr_nabortrels h) * szrel) sf
           = Some (concat (pd_abortrels pd))"
    and "slice (invalmsgs_at szrel h) (count_of (hdr_ninvalmsgs h) * szmsg) sf
           = Some (concat (pd_invalmsgs pd))"
    and "\<forall>r \<in> set recs. rmgr_record_ok r \<Longrightarrow>
         ProcessRecords cbs sf (records_at szrel szmsg h) x s
           = (Inr (), foldl (apply_callback cbs x) s recs)"
proof -
  let ?A = "TwoPhaseFileHeader_image u h"
  let ?B = "padded u (xids_image (pd_children pd))"
  let ?C = "padded u (concat (pd_commitrels pd))"
  let ?D = "padded u (concat (pd_abortrels pd))"
  let ?E = "padded u (concat (pd_invalmsgs pd))"
  let ?R = "concat (map (rmgr_record_image u) recs) @
            rmgr_record_image u (TWOPHASE_RM_END_ID, 0, [])"
  from g have gl: "length (hdr_gid h) \<le> GIDSIZE" by (simp add: gid_ok_def)
  have sf: "sf = ?A @ ?B @ ?C @ ?D @ ?E @ ?R"
    using gl by (simp add: sf_def state_file_layout_def padded_TwoPhaseFileHeader_image)
  have lA: "length ?A = sizeof_TwoPhaseFileHeader"
    using gl by (rule length_TwoPhaseFileHeader_image)
  from ok have k: "length (pd_children pd) < 2 ^ 31" "length (pd_commitrels pd) < 2 ^ 31"
      "length (pd_abortrels pd) < 2 ^ 31" "length (pd_invalmsgs pd) < 2 ^ 31"
    and l3: "length (concat (pd_commitrels pd)) = length (pd_commitrels pd) * szrel"
    and l4: "length (concat (pd_abortrels pd)) = length (pd_abortrels pd) * szrel"
    and l5: "length (concat (pd_invalmsgs pd)) = length (pd_invalmsgs pd) * szmsg"
    by (simp_all add: prepare_data_ok_def length_concat_fixed)
  from hc have c: "count_of (hdr_nsubxacts h) = length (pd_children pd)"
      "count_of (hdr_ncommitrels h) = length (pd_commitrels pd)"
      "count_of (hdr_nabortrels h) = length (pd_abortrels pd)"
      "count_of (hdr_ninvalmsgs h) = length (pd_invalmsgs pd)"
    using k by (simp_all add: header_counts_def count_of_of_nat(1))
  from hc have nn: "0 \<le>s hdr_nsubxacts h" "0 \<le>s hdr_ncommitrels h"
      "0 \<le>s hdr_nabortrels h" "0 \<le>s hdr_ninvalmsgs h"
    using k by (simp_all add: header_counts_def count_of_of_nat(2))
  from ok have bd: "count_of (hdr_nsubxacts h) * sizeof_TransactionId \<le> MaxAllocSize"
      "count_of (hdr_ncommitrels h) * szrel \<le> MaxAllocSize"
      "count_of (hdr_nabortrels h) * szrel \<le> MaxAllocSize"
      "count_of (hdr_ninvalmsgs h) * szmsg \<le> MaxAllocSize"
    unfolding c by (simp_all add: prepare_data_ok_def)
  show "sizeof_TwoPhaseFileHeader \<le> length sf"
    using lA by (simp add: sf)
  show "read_TwoPhaseFileHeader sf = h"
    unfolding sf by (rule read_TwoPhaseFileHeader_image [OF g])
  have a1: "children_at = length ?A"
    by (simp add: children_at_def lA MAXALIGN_def sizeof_TwoPhaseFileHeader_def)
  have o1: "children_at < 2 ^ 40"
    by (simp add: children_at_def MAXALIGN_def sizeof_TwoPhaseFileHeader_def)
  have b2: "commitrels_at h =
              children_at + MAXALIGN (count_of (hdr_nsubxacts h) * sizeof_TransactionId)"
    unfolding commitrels_at_def by (rule bufptr_add_array [OF nn(1) bd(1) o1])
  have o2: "commitrels_at h < 2 ^ 40"
    unfolding b2 using o1 bd(1) MAXALIGN_le [of "count_of (hdr_nsubxacts h) * sizeof_TransactionId"]
    by (simp add: MaxAllocSize_def children_at_def MAXALIGN_def sizeof_TwoPhaseFileHeader_def)
  have b3: "abortrels_at szrel h = commitrels_at h + MAXALIGN (count_of (hdr_ncommitrels h) * szrel)"
    unfolding abortrels_at_def by (rule bufptr_add_array [OF nn(2) bd(2) o2])
  have o3: "abortrels_at szrel h < 2 ^ 40"
    unfolding b3 b2 using bd(1,2) MAXALIGN_le [of "count_of (hdr_nsubxacts h) * sizeof_TransactionId"]
      MAXALIGN_le [of "count_of (hdr_ncommitrels h) * szrel"]
    by (simp add: MaxAllocSize_def children_at_def MAXALIGN_def sizeof_TwoPhaseFileHeader_def)
  have b4: "invalmsgs_at szrel h =
              abortrels_at szrel h + MAXALIGN (count_of (hdr_nabortrels h) * szrel)"
    unfolding invalmsgs_at_def by (rule bufptr_add_array [OF nn(3) bd(3) o3])
  have o4: "invalmsgs_at szrel h < 2 ^ 40"
    unfolding b4 b3 b2 using bd(1,2,3)
      MAXALIGN_le [of "count_of (hdr_nsubxacts h) * sizeof_TransactionId"]
      MAXALIGN_le [of "count_of (hdr_ncommitrels h) * szrel"]
      MAXALIGN_le [of "count_of (hdr_nabortrels h) * szrel"]
    by (simp add: MaxAllocSize_def children_at_def MAXALIGN_def sizeof_TwoPhaseFileHeader_def)
  have b5: "records_at szrel szmsg h =
              invalmsgs_at szrel h + MAXALIGN (count_of (hdr_ninvalmsgs h) * szmsg)"
    unfolding records_at_def by (rule bufptr_add_array [OF nn(4) bd(4) o4])
  have a2: "commitrels_at h = length (?A @ ?B)"
    by (simp add: b2 a1 c sizeof_TransactionId_def mult.commute)
  have a3: "abortrels_at szrel h = length (?A @ ?B @ ?C)"
    by (simp add: b3 a2 c l3)
  have a4: "invalmsgs_at szrel h = length (?A @ ?B @ ?C @ ?D)"
    by (simp add: b4 a3 c l4)
  have a5: "records_at szrel szmsg h = length (?A @ ?B @ ?C @ ?D @ ?E)"
    by (simp add: b5 a4 c l5)
  have sl: "slice children_at (count_of (hdr_nsubxacts h) * sizeof_TransactionId) sf
           = Some (xids_image (pd_children pd))"
    unfolding sf a1 c
    by (rule slice_padded) (simp_all add: sizeof_TransactionId_def)
  then show "slice children_at (count_of (hdr_nsubxacts h) * sizeof_TransactionId) sf
           = Some (xids_image (pd_children pd))" .
  have rx: "read_xids (count_of (hdr_nsubxacts h)) (xids_image (pd_children pd)) = pd_children pd"
    unfolding c using read_xids_image [of "pd_children pd" "[]"] by simp
  then show "read_xids (count_of (hdr_nsubxacts h)) (xids_image (pd_children pd)) = pd_children pd" .
  show "xids_at children_at (hdr_nsubxacts h) sf = Some (pd_children pd)"
  proof (cases "count_of (hdr_nsubxacts h) = 0")
    case True
    with c(1) show ?thesis
      by (simp add: xids_at_def array_at_def read_xids_def)
  next
    case False
    then show ?thesis
      using sl rx by (simp add: xids_at_def array_at_def sizeof_TransactionId_def)
  qed
  have f2: "sf = (?A @ ?B) @ ?C @ (?D @ ?E @ ?R)" by (simp add: sf)
  show "slice (commitrels_at h) (count_of (hdr_ncommitrels h) * szrel) sf
           = Some (concat (pd_commitrels pd))"
    unfolding f2 a2 c by (rule slice_padded) (simp_all add: l3)
  have f3: "sf = (?A @ ?B @ ?C) @ ?D @ (?E @ ?R)" by (simp add: sf)
  show "slice (abortrels_at szrel h) (count_of (hdr_nabortrels h) * szrel) sf
           = Some (concat (pd_abortrels pd))"
    unfolding f3 a3 c by (rule slice_padded) (simp_all add: l4)
  have f4: "sf = (?A @ ?B @ ?C @ ?D) @ ?E @ ?R" by (simp add: sf)
  show "slice (invalmsgs_at szrel h) (count_of (hdr_ninvalmsgs h) * szmsg) sf
           = Some (concat (pd_invalmsgs pd))"
    unfolding f4 a4 c by (rule slice_padded) (simp_all add: l5)
  have f5: "sf = (?A @ ?B @ ?C @ ?D @ ?E) @ concat (map (rmgr_record_image u) recs) @
            rmgr_record_image u (TWOPHASE_RM_END_ID, 0, []) @ []" by (simp add: sf)
  show "ProcessRecords cbs sf (records_at szrel szmsg h) x s
           = (Inr (), foldl (apply_callback cbs x) s recs)"
    if "\<forall>r \<in> set recs. rmgr_record_ok r"
    unfolding f5 a5 by (rule ProcessRecords_layout [OF that])
qed

lemma foldl_collect:
  "foldl (apply_callback collect_callbacks x) acc recs = acc @ recs"
  by (induction recs arbitrary: acc) (auto simp: apply_callback_def collect_callbacks_def)

lemma StartPrepare_header_counts: "header_counts (StartPrepare_header g proc pd) pd"
  by (simp add: header_counts_def StartPrepare_header_def)

lemma StartPrepare_header_gid:
  "gid_ok (gid g) \<Longrightarrow> hdr_gid (StartPrepare_header g proc pd) = gid g"
  by (simp add: gid_ok_def StartPrepare_header_def GIDSIZE_def)

text \<open>
  Claim C5. Let the builder assemble a state file for an entry whose GID is a C string of
  legal length, from data and resource-manager records of the sizes their types allow:
  \<open>StartPrepare\<close>, one \<open>RegisterTwoPhaseRecord\<close> for each record, then the sentinel and the
  total length of \<open>EndPrepare\<close>. Then the byte stream is the header, the subtransaction
  ids, the commit-time delete list, the abort-time delete list, the invalidation messages,
  the resource-manager records and the sentinel, in this order and each padded to the
  alignment boundary. Reading the stream back the way \<open>FinishPreparedTransaction\<close> does
  gives the header as \<open>StartPrepare\<close> filled it in, with the total length \<open>EndPrepare\<close>
  wrote, the GID being that of the entry; at the offsets computed from the counts of the
  header it finds the bytes of the four arrays; and the walk of \<open>ProcessRecords\<close> from
  the offset behind the arrays meets exactly the registered records, in order, and stops
  at the sentinel.
\<close>

theorem state_file_roundtrip:
  assumes "prepare_data_ok szrel szmsg pd" and "gid_ok (gid g)"
    and "\<forall>r \<in> set recs. rmgr_record_ok r"
  shows "let sf = xllist_stream
                    (build_state_file u szrel szmsg (StartPrepare_header g proc pd) pd recs);
             hdr = (StartPrepare_header g proc pd)
                     \<lparr>hdr_total_len := of_nat (length sf) + of_nat sizeof_pg_crc32\<rparr>
         in sf = state_file_layout u hdr pd recs \<and>
            read_TwoPhaseFileHeader sf = hdr \<and>
            hdr_gid hdr = gid g \<and>
            slice children_at (count_of (hdr_nsubxacts hdr) * sizeof_TransactionId) sf
              = Some (xids_image (pd_children pd)) \<and>
            read_xids (count_of (hdr_nsubxacts hdr)) (xids_image (pd_children pd))
              = pd_children pd \<and>
            slice (commitrels_at hdr) (count_of (hdr_ncommitrels hdr) * szrel) sf
              = Some (concat (pd_commitrels pd)) \<and>
            slice (abortrels_at szrel hdr) (count_of (hdr_nabortrels hdr) * szrel) sf
              = Some (concat (pd_abortrels pd)) \<and>
            slice (invalmsgs_at szrel hdr) (count_of (hdr_ninvalmsgs hdr) * szmsg) sf
              = Some (concat (pd_invalmsgs pd)) \<and>
            ProcessRecords collect_callbacks sf (records_at szrel szmsg hdr) x []
              = (Inr (), recs)"
proof -
  define hz where "hz = StartPrepare_header g proc pd"
  define sf where "sf = xllist_stream (build_state_file u szrel szmsg hz pd recs)"
  define h where "h = hz\<lparr>hdr_total_len := of_nat (length sf) + of_nat sizeof_pg_crc32\<rparr>"
  have g0: "hdr_gid hz = gid g"
    unfolding hz_def using assms(2) by (rule StartPrepare_header_gid)
  have gl: "length (hdr_gid hz) \<le> GIDSIZE" using assms(2) g0 by (simp add: gid_ok_def)
  have hc0: "header_counts hz pd"
    unfolding hz_def by (rule StartPrepare_header_counts)
  have hc: "header_counts h pd"
    using hc0 by (simp add: header_counts_def h_def)
  have gg: "hdr_gid h = gid g" using g0 by (simp add: h_def)
  have gh: "gid_ok (hdr_gid h)" using assms(2) gg by simp
  have sf: "sf = state_file_layout u h pd recs"
    unfolding sf_def h_def sf_def by (rule build_state_file_stream [OF assms(1) hc0 gl assms(3)])
  note d = state_file_layout_decode [OF assms(1) hc gh]
  have d2: "read_TwoPhaseFileHeader sf = h"
    unfolding sf by (rule d(2))
  have d4: "slice children_at (count_of (hdr_nsubxacts h) * sizeof_TransactionId) sf
              = Some (xids_image (pd_children pd))"
    unfolding sf by (rule d(4))
  have d6: "slice (commitrels_at h) (count_of (hdr_ncommitrels h) * szrel) sf
              = Some (concat (pd_commitrels pd))"
    unfolding sf by (rule d(6))
  have d7: "slice (abortrels_at szrel h) (count_of (hdr_nabortrels h) * szrel) sf
              = Some (concat (pd_abortrels pd))"
    unfolding sf by (rule d(7))
  have d8: "slice (invalmsgs_at szrel h) (count_of (hdr_ninvalmsgs h) * szmsg) sf
              = Some (concat (pd_invalmsgs pd))"
    unfolding sf by (rule d(8))
  have "ProcessRecords collect_callbacks sf (records_at szrel szmsg h) x []
          = (Inr (), foldl (apply_callback collect_callbacks x) [] recs)"
    unfolding sf by (rule d(9) [OF assms(3)])
  then have pr: "ProcessRecords collect_callbacks sf (records_at szrel szmsg h) x []
          = (Inr (), recs)"
    by (simp add: foldl_collect)
  have "sf = state_file_layout u h pd recs \<and>
            read_TwoPhaseFileHeader sf = h \<and>
            hdr_gid h = gid g \<and>
            slice children_at (count_of (hdr_nsubxacts h) * sizeof_TransactionId) sf
              = Some (xids_image (pd_children pd)) \<and>
            read_xids (count_of (hdr_nsubxacts h)) (xids_image (pd_children pd))
              = pd_children pd \<and>
            slice (commitrels_at h) (count_of (hdr_ncommitrels h) * szrel) sf
              = Some (concat (pd_commitrels pd)) \<and>
            slice (abortrels_at szrel h) (count_of (hdr_nabortrels h) * szrel) sf
              = Some (concat (pd_abortrels pd)) \<and>
            slice (invalmsgs_at szrel h) (count_of (hdr_ninvalmsgs h) * szmsg) sf
              = Some (concat (pd_invalmsgs pd)) \<and>
            ProcessRecords collect_callbacks sf (records_at szrel szmsg h) x []
              = (Inr (), recs)"
    using sf d2 gg d4 d(5) d6 d7 d8 pr by blast
  then show ?thesis
    unfolding Let_def h_def sf_def hz_def .
qed

theorem state_file_roundtrip_witness:
  "prepare_data_ok 16 16 sample_data \<and> gid_ok ''t1'' \<and> rmgr_record_ok (1, 3, [1, 2, 3]) \<and>
   (let sf = xllist_stream
               (build_state_file (\<lambda>i. 0xAA) 16 16
                  (StartPrepare_header (sample_gxact\<lparr>gid := ''t1''\<rparr>) sample_proc sample_data)
                  sample_data [(1, 3, [1, 2, 3])]);
        hdr = (StartPrepare_header (sample_gxact\<lparr>gid := ''t1''\<rparr>) sample_proc sample_data)
                \<lparr>hdr_total_len := of_nat (length sf) + of_nat sizeof_pg_crc32\<rparr>
    in read_TwoPhaseFileHeader sf = hdr \<and>
       slice children_at (count_of (hdr_nsubxacts hdr) * sizeof_TransactionId) sf
         = Some (xids_image [101, 102]) \<and>
       ProcessRecords collect_callbacks sf (records_at 16 16 hdr) 100 []
         = (Inr (), [(1, 3, [1, 2, 3])]))"
proof -
  have h1: "prepare_data_ok 16 16 sample_data"
    by (simp add: prepare_data_ok_def sample_data_def MaxAllocSize_def sizeof_TransactionId_def)
  have h2: "gid_ok (gid (sample_gxact\<lparr>gid := ''t1''\<rparr>))"
    by (simp add: gid_ok_def GIDSIZE_def)
  have h3: "\<forall>r \<in> set [(1, 3, [1, 2, 3])]. rmgr_record_ok r"
    by (simp add: rmgr_record_ok_def TWOPHASE_RM_END_ID_def MaxAllocSize_def)
  have c: "pd_children sample_data = [101, 102]" by (simp add: sample_data_def)
  show ?thesis
    using h1 h2 h3
      state_file_roundtrip [OF h1 h2 h3, of "\<lambda>i. 0xAA" sample_proc 100]
    unfolding Let_def by (simp add: c)
qed

subsection \<open>Finishing a transaction that is not there\<close>

text \<open>
  Claim C7. When no valid entry carries the GID and \<open>raiseErrorIfNotFound\<close> is false,
  \<open>FinishPreparedTransaction\<close> returns \<open>false\<close> without an error. For a rollback nothing
  else happens; for a commit the backend first waits for the mirror. In both cases the
  table is as before: the state differs only in the flag of the exit hook and, for a
  commit, in the recorded wait.
\<close>

theorem Finish_missing_entry:
  assumes "valid_match (tp s) g = None"
  shows "FinishPreparedTransaction c user g False False s =
           (Inr False, s\<lparr>tp := (tp s)\<lparr>twophaseExitRegistered := True\<rparr>\<rparr>) \<and>
         FinishPreparedTransaction c user g True False s =
           (Inr False,
            log_event Ev_wait_for_mirror (s\<lparr>tp := (tp s)\<lparr>twophaseExitRegistered := True\<rparr>\<rparr>))"
  using assms by (simp add: FinishPreparedTransaction_def LockGXact_char)

theorem Finish_missing_entry_witness:
  "FinishPreparedTransaction sample_collab 10 ''t9'' False False (sample_system (sample_prepared 5))
     = (Inr False, sample_system ((sample_prepared 5)\<lparr>twophaseExitRegistered := True\<rparr>)) \<and>
   fst (FinishPreparedTransaction sample_collab 10 ''t9'' True False
          (sample_system (sample_prepared 5))) = Inr False \<and>
   events (snd (FinishPreparedTransaction sample_collab 10 ''t9'' True False
          (sample_system (sample_prepared 5)))) = [Ev_wait_for_mirror] \<and>
   prepXacts (tp (snd (FinishPreparedTransaction sample_collab 10 ''t9'' True False
          (sample_system (sample_prepared 5))))) = prepXacts (sample_prepared 5)"
proof -
  have m: "valid_match (tp (sample_system (sample_prepared 5))) ''t9'' = None"
    by code_simp
  show ?thesis
    using Finish_missing_entry [OF m, of sample_collab 10]
    by (simp add: sample_system_def log_event_def)
qed

subsection \<open>Unreadable prepare records\<close>

lemma Prescan_unreadable:
  assumes "recover_map s = (k, loc) # rest" "loc \<noteq> InvalidXLogRecPtr"
    "XLogReadRecord (xlog s) loc = None"
  shows "PrescanPreparedTransactions c xids_p s = (Inl InvalidMemoryAccess, s)"
  using assms by (simp add: PrescanPreparedTransactions_def)

lemma Recover_unreadable:
  assumes "recover_map s = (k, loc) # rest" "loc \<noteq> InvalidXLogRecPtr"
    "XLogReadRecord (xlog s) loc = None"
  shows "RecoverPreparedTransactions c s = (Inl CorruptRecord, s)"
  using assms by (simp add: RecoverPreparedTransactions_def)

lemma Finish_unreadable:
  assumes "fst (LockGXact (superuser_arg c) g user raise (tp s)) = Inr (Some x)"
    "XLogReadRecord (xlog s) (prepare_begin_lsn (gxacts (tp s) x)) = None"
  shows "FinishPreparedTransaction c user g isCommit raise s =
           (Inl CorruptRecord, s\<lparr>tp := snd (LockGXact (superuser_arg c) g user raise (tp s))\<rparr>)"
proof -
  obtain t where l: "LockGXact (superuser_arg c) g user raise (tp s) = (Inr (Some x), t)"
    using assms(1) by (cases "LockGXact (superuser_arg c) g user raise (tp s)") auto
  have "prepare_begin_lsn (gxacts t x) = prepare_begin_lsn (gxacts (tp s) x)"
    using l by (auto simp: LockGXact_char LockGXact_decide_def
        split: option.splits if_splits)
  then show ?thesis using l assms(2)
    by (simp add: FinishPreparedTransaction_def Let_def)
qed

text \<open>
  Claim C9 asks both \<open>FinishPreparedTransaction\<close> and \<open>PrescanPreparedTransactions\<close> to
  stop with \<open>CorruptRecord\<close> before any field of an unreadable record is touched.
  \<open>FinishPreparedTransaction\<close> and \<open>RecoverPreparedTransactions\<close> test the record first
  (lemmas \<open>Finish_unreadable\<close> and \<open>Recover_unreadable\<close>).
  \<open>PrescanPreparedTransactions\<close> reads \<open>hdr->xid\<close> first: on the sample restart, whose
  only map entry points to a location without a record, it ends in an invalid memory
  access and not in the error report, while \<open>RecoverPreparedTransactions\<close> reports
  \<open>CorruptRecord\<close> on the same state.
\<close>

theorem Prescan_reads_header_before_check:
  "XLogReadRecord (xlog sample_unreadable) 64 = None \<and>
   PrescanPreparedTransactions sample_collab False sample_unreadable
     = (Inl InvalidMemoryAccess, sample_unreadable) \<and>
   RecoverPreparedTransactions sample_collab sample_unreadable
     = (Inl CorruptRecord, sample_unreadable)"
  by (simp add: sample_unreadable_def PrescanPreparedTransactions_def
      RecoverPreparedTransactions_def sample_system_def XLogReadRecord_def InvalidXLogRecPtr_def)

subsection \<open>The sample transaction\<close>

lemma sample_entry:
  "valid_match (sample_prepared 5) ''t1'' = Some 1"
  "gid (gxacts (sample_prepared 5) 1) = ''t1''"
  "owner (gxacts (sample_prepared 5) 1) = 10"
  "locking_backend (gxacts (sample_prepared 5) 1) = InvalidBackendId"
  "databaseId (allProcs (sample_prepared 5) (pgprocno (gxacts (sample_prepared 5) 1))) = 5"
  "proc_xid (allProcs (sample_prepared 5) (pgprocno (gxacts (sample_prepared 5) 1))) = 100"
  "MyDatabaseId (sample_prepared 5) = 5"
  "prepXacts (sample_prepared 5) = [1]"
  by code_simp+

lemma sample_data_ok: "prepare_data_ok 16 16 sample_data"
  by (simp add: prepare_data_ok_def sample_data_def sizeof_TransactionId_def MaxAllocSize_def)

lemma sample_records_ok: "\<forall>r \<in> set sample_records. rmgr_record_ok r"
  by (simp add: sample_records_def rmgr_record_ok_def TWOPHASE_RM_END_ID_def MaxAllocSize_def)

lemma sample_gid_ok: "gid_ok ''t1''"
  by (simp add: gid_ok_def GIDSIZE_def)

lemma sample_header_gid: "hdr_gid sample_header = ''t1''"
proof -
  have "gid_ok (gid (gxacts (sample_prepared 5) 1))"
    unfolding sample_entry(2) by (rule sample_gid_ok)
  from StartPrepare_header_gid [OF this] show ?thesis
    unfolding sample_header_def sample_entry(2) .
qed


lemma sample_file_layout:
  "sample_file =
     state_file_layout (uninit sample_collab)
       (sample_header\<lparr>hdr_total_len := of_nat (length sample_file) + of_nat sizeof_pg_crc32\<rparr>)
       sample_data sample_records"
proof -
  have hc: "header_counts sample_header sample_data"
    unfolding sample_header_def by (rule StartPrepare_header_counts)
  have g: "length (hdr_gid sample_header) \<le> GIDSIZE"
    unfolding sample_header_gid by (simp add: GIDSIZE_def)
  show ?thesis
    unfolding sample_file_def
    by (rule build_state_file_stream [OF sample_data_ok hc g sample_records_ok])
qed

lemma sample_finishable_tp:
  "tp sample_finishable =
     (sample_prepared 5)\<lparr>gxacts := (gxacts (sample_prepared 5))
        (1 := (gxacts (sample_prepared 5) 1)\<lparr>prepare_begin_lsn := 64\<rparr>)\<rparr>"
  "xlog sample_finishable = sample_xlog"
  "clog sample_finishable = (\<lambda>x. TRANSACTION_STATUS_IN_PROGRESS)"
  "recover_map sample_finishable = [(100, 64)]"
  by (simp_all add: sample_finishable_def sample_system_def)

lemma sample_xlog_read:
  "XLogReadRecord sample_xlog 64 = Some \<lparr>xl_info = XLOG_XACT_PREPARE, xl_data = sample_file\<rparr>"
  by (simp add: XLogReadRecord_def sample_xlog_def)

lemma sample_finishable_entry:
  "valid_match (tp sample_finishable) ''t1'' = Some 1"
  "gid (gxacts (tp sample_finishable) 1) = ''t1''"
  "owner (gxacts (tp sample_finishable) 1) = 10"
  "locking_backend (gxacts (tp sample_finishable) 1) = InvalidBackendId"
  "databaseId (allProcs (tp sample_finishable) (pgprocno (gxacts (tp sample_finishable) 1))) = 5"
  "proc_xid (allProcs (tp sample_finishable) (pgprocno (gxacts (tp sample_finishable) 1))) = 100"
  "MyDatabaseId (tp sample_finishable) = 5"
  "prepare_begin_lsn (gxacts (tp sample_finishable) 1) = 64"
  unfolding sample_finishable_tp by code_simp+

subsection \<open>The course of a finish\<close>

lemma ProcessRecords_steps:
  "\<exists>es. snd (ProcessRecords (callbacks_of c ph) buf off x s) =
          s\<lparr>events := events s @ es,
            snapshots := snapshots s @ replicate (length es) (snapshot_of s)\<rparr> \<and>
        (\<forall>e \<in> set es. \<exists>r i d. e = EvCallback ph r x i d)"
proof (induction "callbacks_of c ph" buf off x s rule: ProcessRecords.induct)
  case (1 buf bufptr x s)
  let ?rec = "read_TwoPhaseRecordOnDisk (drop bufptr buf)"
  let ?data_at = "bufptr + MAXALIGN sizeof_TwoPhaseRecordOnDisk"
  let ?next = "?data_at + MAXALIGN (unat (rec_len ?rec))"
  have triv: "s = s\<lparr>events := events s @ [],
                    snapshots := snapshots s @ replicate (length ([]::event list)) (snapshot_of s)\<rparr>"
    by simp
  have none: ?case if "snd (ProcessRecords (callbacks_of c ph) buf bufptr x s) = s"
    by (rule exI [of _ "[]"]) (simp add: that)
  show ?case
  proof (cases "length buf < bufptr + sizeof_TwoPhaseRecordOnDisk \<or> rec_rmid ?rec = TWOPHASE_RM_END_ID")
    case True
    then have "snd (ProcessRecords (callbacks_of c ph) buf bufptr x s) = s"
      by (subst ProcessRecords.simps) (auto simp: Let_def)
    then show ?thesis by (rule none)
  next
    case False
    then have a: "\<not> length buf < bufptr + sizeof_TwoPhaseRecordOnDisk"
      and b: "rec_rmid ?rec \<noteq> TWOPHASE_RM_END_ID" by auto
    show ?thesis
    proof (cases "has_callback c ph (rec_rmid ?rec)")
      case False
      then have n: "callbacks_of c ph (rec_rmid ?rec) = None" by (simp add: callbacks_of_def)
      have "ProcessRecords (callbacks_of c ph) buf bufptr x s =
            ProcessRecords (callbacks_of c ph) buf ?next x s"
        by (subst ProcessRecords.simps) (simp add: Let_def a b n)
      with "1.hyps"(1) [OF a refl b refl refl n]
      show ?thesis by simp
    next
      case True
      let ?cb = "\<lambda>x i data. log_event (EvCallback ph (rec_rmid ?rec) x i data)"
      from True have n: "callbacks_of c ph (rec_rmid ?rec) = Some ?cb"
        by (simp add: callbacks_of_def)
      show ?thesis
      proof (cases "slice ?data_at (unat (rec_len ?rec)) buf")
        case None
        have "snd (ProcessRecords (callbacks_of c ph) buf bufptr x s) = s"
          by (subst ProcessRecords.simps) (simp add: Let_def a b n None)
        then show ?thesis by (rule none)
      next
        case (Some data)
        let ?e = "EvCallback ph (rec_rmid ?rec) x (rec_info ?rec) data"
        let ?s1 = "log_event ?e s"
        from "1.hyps"(2) [OF a refl b refl refl n Some]
        obtain es where es: "snd (ProcessRecords (callbacks_of c ph) buf ?next x ?s1)
               = ?s1\<lparr>events := events ?s1 @ es,
                      snapshots := snapshots ?s1 @ replicate (length es) (snapshot_of ?s1)\<rparr>"
          "\<forall>e \<in> set es. \<exists>r i d. e = EvCallback ph r x i d"
          by blast
        have step: "ProcessRecords (callbacks_of c ph) buf bufptr x s =
              ProcessRecords (callbacks_of c ph) buf ?next x ?s1"
          by (subst ProcessRecords.simps) (simp add: Let_def a b n Some)
        have "?s1\<lparr>events := events ?s1 @ es,
                   snapshots := snapshots ?s1 @ replicate (length es) (snapshot_of ?s1)\<rparr> =
              s\<lparr>events := events s @ (?e # es),
                snapshots := snapshots s @ replicate (length (?e # es)) (snapshot_of s)\<rparr>"
          by (simp add: log_event_def snapshot_of_def)
        moreover have "\<forall>e \<in> set (?e # es). \<exists>r i d. e = EvCallback ph r x i d"
          using es(2) by auto
        ultimately show ?thesis
          unfolding step es(1) by (intro exI [of _ "?e # es"] conjI)
      qed
    qed
  qed
qed

lemma outcome_kind_simps [simp]:
  "outcome_kind True = XLOG_XACT_COMMIT_PREPARED" "outcome_kind False = XLOG_XACT_ABORT_PREPARED"
  by (simp_all add: outcome_kind_def)

lemma XLogInsert_facts:
  fixes k data xl
  defines "ins \<equiv> XLogInsert (outcome_kind k) data xl"
  shows "outcome_written_at k (xlog_insert_pos xl) (fst ins) (snd ins)"
    and "outcome_written_at k (xlog_insert_pos xl) (fst ins) (XLogFlush (fst ins) (snd ins))"
    and "outcome_durable k (xlog_insert_pos xl) (XLogFlush (fst ins) (snd ins))"
    and "fst ins \<le> xlog_flushed (XLogFlush (fst ins) (snd ins))"
    and "XLogReadRecord (XLogFlush (fst ins) (snd ins)) (xlog_insert_pos xl) =
           Some \<lparr>xl_info = outcome_kind k, xl_data = data\<rparr>"
  by (simp_all add: ins_def XLogInsert_def XLogFlush_def XLogReadRecord_def Let_def
      outcome_written_at_def outcome_durable_def)

lemma RecordTransactionCommitPrepared_steps:
  assumes run: "RecordTransactionCommitPrepared c x g nch ch nr r ni i buf s = (res, s')"
    and pre: "p \<in> set (procArray (tp s))" "valid (gxacts (tp s) gxact)"
      "gxact \<in> set (prepXacts (tp s))"
  shows "\<exists>steps. events s' = events s @ map fst steps \<and>
           snapshots s' = snapshots s @ map snd steps \<and>
           tp s' = tp s \<and> recover_map s' = recover_map s \<and>
           sorted (map (finish_stage \<circ> fst) steps) \<and>
           (\<forall>st \<in> set steps. finish_stage (fst st) \<le> 3) \<and>
           list_all (finish_step_ok True x p gxact (xlog_insert_pos (xlog s)) (clog s)
                       (procArray (tp s))) steps \<and>
           (res = Inr () \<longrightarrow>
              outcome_durable True (xlog_insert_pos (xlog s)) (xlog s') \<and>
              outcome_names c True x g (xlog_insert_pos (xlog s)) (xlog s') \<and>
              status_set True x (clog s') \<and>
              (\<exists>l. EvXLogInsert XLOG_XACT_COMMIT_PREPARED l \<in> fst ` set steps \<and>
                   EvXLogFlush l \<in> fst ` set steps) \<and>
              (\<exists>xs. EvTransactionIdCommitTree x xs \<in> fst ` set steps))"
proof -
  let ?szrel = "sizeof_RelFileNodePendingDelete c"
  let ?szmsg = "sizeof_SharedInvalidationMessage c"
  let ?b = "xlog_insert_pos (xlog s)"
  consider (A) "rdata_at r nr ?szrel buf = None \<or> rdata_at ch nch sizeof_TransactionId buf = None \<or>
                rdata_at i ni ?szmsg buf = None"
    | (B) d1 d2 d3 where "rdata_at r nr ?szrel buf = Some d1"
        "rdata_at ch nch sizeof_TransactionId buf = Some d2" "rdata_at i ni ?szmsg buf = Some d3"
    by (cases "rdata_at r nr ?szrel buf"; cases "rdata_at ch nch sizeof_TransactionId buf";
        cases "rdata_at i ni ?szmsg buf") auto
  then show ?thesis
  proof cases
    case A
    then have "RecordTransactionCommitPrepared c x g nch ch nr r ni i buf s =
                 (Inl InvalidMemoryAccess, s)"
      by (auto simp: RecordTransactionCommitPrepared_def split: option.splits)
    with run have "s' = s" "res = Inl InvalidMemoryAccess" by simp_all
    then show ?thesis by (intro exI [of _ "[]"]) simp
  next
    case B
    define data where "data = xl_xact_commit_prepared_image c x g nr nch ni @ d1 @ d2 @ d3"
    define ins where "ins = XLogInsert (outcome_kind True) data (xlog s)"
    define l where "l = fst ins"
    define x1 where "x1 = snd ins"
    define x2 where "x2 = XLogFlush l x1"
    note xf = XLogInsert_facts [where k = True and data = data and xl = "xlog s",
        folded ins_def, folded l_def x1_def, folded x2_def]
    define n1 where "n1 = \<lparr>snap_tp = tp s, snap_recover_map = recover_map s, snap_xlog = x1,
        snap_clog = clog s\<rparr>"
    define n2 where "n2 = n1\<lparr>snap_xlog := x2\<rparr>"
    have q1: "finish_step_ok True x p gxact ?b (clog s) (procArray (tp s))
                (EvXLogInsert XLOG_XACT_COMMIT_PREPARED l, n1)"
      using pre xf(1)
      by (simp add: finish_step_ok_def n1_def shadow_gone_def entry_invalid_def entry_removed_def)
    have q2: "finish_step_ok True x p gxact ?b (clog s) (procArray (tp s)) (EvXLogFlush l, n2)"
      using pre xf(2,3,4)
      by (simp add: finish_step_ok_def n2_def n1_def shadow_gone_def entry_invalid_def
          entry_removed_def)
    show ?thesis
    proof (cases "xids_at ch nch buf")
      case None
      have "RecordTransactionCommitPrepared c x g nch ch nr r ni i buf s =
              (Inl InvalidMemoryAccess,
               log_event (EvXLogFlush l)
                 ((log_event (EvXLogInsert XLOG_XACT_COMMIT_PREPARED l) (s\<lparr>xlog := x1\<rparr>))
                    \<lparr>xlog := x2\<rparr>))"
        by (simp add: RecordTransactionCommitPrepared_def B None Let_def data_def ins_def l_def
            x1_def x2_def)
      with run have s': "s' = log_event (EvXLogFlush l)
                 ((log_event (EvXLogInsert XLOG_XACT_COMMIT_PREPARED l) (s\<lparr>xlog := x1\<rparr>))
                    \<lparr>xlog := x2\<rparr>)" and res: "res = Inl InvalidMemoryAccess" by simp_all
      show ?thesis
        using q1 q2
        by (intro exI [of _ "[(EvXLogInsert XLOG_XACT_COMMIT_PREPARED l, n1), (EvXLogFlush l, n2)]"])
           (simp add: s' res snapshot_of_def n1_def n2_def)
    next
      case (Some xs)
      define cl where "cl = TransactionIdSetTreeStatus x xs TRANSACTION_STATUS_COMMITTED (clog s)"
      define n3 where "n3 = n2\<lparr>snap_clog := cl\<rparr>"
      have st: "status_set True x cl"
        by (simp add: status_set_def cl_def TransactionIdSetTreeStatus_def outcome_status_def)
      have q3: "finish_step_ok True x p gxact ?b (clog s) (procArray (tp s))
                  (EvDistributedLog_SetCommittedTree x xs, n2)"
        using pre xf(3)
        by (simp add: finish_step_ok_def n2_def n1_def shadow_gone_def entry_invalid_def
            entry_removed_def)
      have q4: "finish_step_ok True x p gxact ?b (clog s) (procArray (tp s))
                  (EvTransactionIdCommitTree x xs, n3)"
        using pre xf(3)
        by (simp add: finish_step_ok_def n3_def n2_def n1_def shadow_gone_def entry_invalid_def
            entry_removed_def cl_def)
      have q5: "finish_step_ok True x p gxact ?b (clog s) (procArray (tp s))
                  (EvSyncRepWaitForLSN l, n3)"
        using pre xf(2,3) st
        by (simp add: finish_step_ok_def n3_def n2_def n1_def shadow_gone_def entry_invalid_def
            entry_removed_def)
      let ?s2 = "log_event (EvXLogFlush l)
                 ((log_event (EvXLogInsert XLOG_XACT_COMMIT_PREPARED l) (s\<lparr>xlog := x1\<rparr>))
                    \<lparr>xlog := x2\<rparr>)"
      let ?s' = "log_event (EvSyncRepWaitForLSN l)
                   (log_event (EvTransactionIdCommitTree x xs)
                      ((log_event (EvDistributedLog_SetCommittedTree x xs) ?s2)\<lparr>clog := cl\<rparr>))"
      have "RecordTransactionCommitPrepared c x g nch ch nr r ni i buf s = (Inr (), ?s')"
        by (simp add: RecordTransactionCommitPrepared_def B Some Let_def data_def ins_def l_def
            x1_def x2_def cl_def)
      with run have s': "s' = ?s'" and res: "res = Inr ()" by simp_all
      have nm: "outcome_names c True x g ?b x2"
        unfolding outcome_names_def xf(5) by (auto simp: data_def)
      show ?thesis
        using q1 q2 q3 q4 q5 xf(3) st nm
        by (intro exI [of _ "[(EvXLogInsert XLOG_XACT_COMMIT_PREPARED l, n1), (EvXLogFlush l, n2),
              (EvDistributedLog_SetCommittedTree x xs, n2), (EvTransactionIdCommitTree x xs, n3),
              (EvSyncRepWaitForLSN l, n3)]"])
           (simp add: s' res snapshot_of_def n1_def n2_def n3_def)
    qed
  qed
qed

lemma RecordTransactionAbortPrepared_steps:
  assumes run: "RecordTransactionAbortPrepared c x nch ch nr r buf s = (res, s')"
    and pre: "p \<in> set (procArray (tp s))" "valid (gxacts (tp s) gxact)"
      "gxact \<in> set (prepXacts (tp s))"
  shows "\<exists>steps. events s' = events s @ map fst steps \<and>
           snapshots s' = snapshots s @ map snd steps \<and>
           tp s' = tp s \<and> recover_map s' = recover_map s \<and>
           sorted (map (finish_stage \<circ> fst) steps) \<and>
           (\<forall>st \<in> set steps. finish_stage (fst st) \<le> 3) \<and>
           list_all (finish_step_ok False x p gxact (xlog_insert_pos (xlog s)) (clog s)
                       (procArray (tp s))) steps \<and>
           (res = Inr () \<longrightarrow>
              outcome_durable False (xlog_insert_pos (xlog s)) (xlog s') \<and>
              outcome_names c False x g (xlog_insert_pos (xlog s)) (xlog s') \<and>
              status_set False x (clog s') \<and>
              (\<exists>l. EvXLogInsert XLOG_XACT_ABORT_PREPARED l \<in> fst ` set steps \<and>
                   EvXLogFlush l \<in> fst ` set steps) \<and>
              (\<exists>xs. EvTransactionIdAbortTree x xs \<in> fst ` set steps))"
proof -
  let ?szrel = "sizeof_RelFileNodePendingDelete c"
  let ?b = "xlog_insert_pos (xlog s)"
  consider (P) "TransactionIdDidCommit (clog s) x"
    | (A) "\<not> TransactionIdDidCommit (clog s) x"
        "rdata_at r nr ?szrel buf = None \<or> rdata_at ch nch sizeof_TransactionId buf = None"
    | (B) d1 d2 where "\<not> TransactionIdDidCommit (clog s) x" "rdata_at r nr ?szrel buf = Some d1"
        "rdata_at ch nch sizeof_TransactionId buf = Some d2"
    by (cases "rdata_at r nr ?szrel buf"; cases "rdata_at ch nch sizeof_TransactionId buf") auto
  then show ?thesis
  proof cases
    case P
    then have "RecordTransactionAbortPrepared c x nch ch nr r buf s = (Inl AlreadyCommitted, s)"
      by (simp add: RecordTransactionAbortPrepared_def)
    with run have "s' = s" "res = Inl AlreadyCommitted" by simp_all
    then show ?thesis by (intro exI [of _ "[]"]) simp
  next
    case A
    then have "RecordTransactionAbortPrepared c x nch ch nr r buf s =
                 (Inl InvalidMemoryAccess, s)"
      by (auto simp: RecordTransactionAbortPrepared_def split: option.splits)
    with run have "s' = s" "res = Inl InvalidMemoryAccess" by simp_all
    then show ?thesis by (intro exI [of _ "[]"]) simp
  next
    case B
    define data where "data = xl_xact_abort_prepared_image c x nr nch @ d1 @ d2"
    define ins where "ins = XLogInsert (outcome_kind False) data (xlog s)"
    define l where "l = fst ins"
    define x1 where "x1 = snd ins"
    define x2 where "x2 = XLogFlush l x1"
    note xf = XLogInsert_facts [where k = False and data = data and xl = "xlog s",
        folded ins_def, folded l_def x1_def, folded x2_def]
    define n1 where "n1 = \<lparr>snap_tp = tp s, snap_recover_map = recover_map s, snap_xlog = x1,
        snap_clog = clog s\<rparr>"
    define n2 where "n2 = n1\<lparr>snap_xlog := x2\<rparr>"
    have q1: "finish_step_ok False x p gxact ?b (clog s) (procArray (tp s))
                (EvXLogInsert XLOG_XACT_ABORT_PREPARED l, n1)"
      using pre xf(1)
      by (simp add: finish_step_ok_def n1_def shadow_gone_def entry_invalid_def entry_removed_def)
    have q2: "finish_step_ok False x p gxact ?b (clog s) (procArray (tp s)) (EvXLogFlush l, n2)"
      using pre xf(2,3,4)
      by (simp add: finish_step_ok_def n2_def n1_def shadow_gone_def entry_invalid_def
          entry_removed_def)
    let ?s2 = "log_event (EvXLogFlush l)
                 ((log_event (EvXLogInsert XLOG_XACT_ABORT_PREPARED l) (s\<lparr>xlog := x1\<rparr>))
                    \<lparr>xlog := x2\<rparr>)"
    show ?thesis
    proof (cases "xids_at ch nch buf")
      case None
      have "RecordTransactionAbortPrepared c x nch ch nr r buf s = (Inl InvalidMemoryAccess, ?s2)"
        by (simp add: RecordTransactionAbortPrepared_def B None Let_def data_def ins_def l_def
            x1_def x2_def)
      with run have s': "s' = ?s2" and res: "res = Inl InvalidMemoryAccess" by simp_all
      show ?thesis
        using q1 q2
        by (intro exI [of _ "[(EvXLogInsert XLOG_XACT_ABORT_PREPARED l, n1), (EvXLogFlush l, n2)]"])
           (simp add: s' res snapshot_of_def n1_def n2_def)
    next
      case (Some xs)
      define cl where "cl = TransactionIdSetTreeStatus x xs TRANSACTION_STATUS_ABORTED (clog s)"
      define n3 where "n3 = n2\<lparr>snap_clog := cl\<rparr>"
      have st: "status_set False x cl"
        by (simp add: status_set_def cl_def TransactionIdSetTreeStatus_def outcome_status_def)
      have q4: "finish_step_ok False x p gxact ?b (clog s) (procArray (tp s))
                  (EvTransactionIdAbortTree x xs, n3)"
        using pre xf(3)
        by (simp add: finish_step_ok_def n3_def n2_def n1_def shadow_gone_def entry_invalid_def
            entry_removed_def cl_def)
      have q5: "finish_step_ok False x p gxact ?b (clog s) (procArray (tp s))
                  (EvSyncRepWaitForLSN l, n3)"
        using pre xf(2,3) st
        by (simp add: finish_step_ok_def n3_def n2_def n1_def shadow_gone_def entry_invalid_def
            entry_removed_def)
      let ?s' = "log_event (EvSyncRepWaitForLSN l)
                   (log_event (EvTransactionIdAbortTree x xs) (?s2\<lparr>clog := cl\<rparr>))"
      have "RecordTransactionAbortPrepared c x nch ch nr r buf s = (Inr (), ?s')"
        by (simp add: RecordTransactionAbortPrepared_def B Some Let_def data_def ins_def l_def
            x1_def x2_def cl_def)
      with run have s': "s' = ?s'" and res: "res = Inr ()" by simp_all
      have nm: "outcome_names c False x g ?b x2"
        unfolding outcome_names_def xf(5) by (auto simp: data_def)
      show ?thesis
        using q1 q2 q4 q5 xf(3) st nm
        by (intro exI [of _ "[(EvXLogInsert XLOG_XACT_ABORT_PREPARED l, n1), (EvXLogFlush l, n2),
              (EvTransactionIdAbortTree x xs, n3), (EvSyncRepWaitForLSN l, n3)]"])
           (simp add: s' res snapshot_of_def n1_def n2_def n3_def)
    qed
  qed
qed

lemma finish_run_nil:
  "events s' = events s \<Longrightarrow> snapshots s' = snapshots s \<Longrightarrow> finish_run Q lo hi s s'"
  unfolding finish_run_def by (intro exI [of _ "[]"]) simp

lemma finish_run_step:
  assumes "finish_run Q lo hi s s1" "events s1' = events s1" "snapshots s1' = snapshots s1"
    and "Q (e, snapshot_of s1')" "hi \<le> finish_stage e" "finish_stage e \<le> hi'"
    and "lo \<le> finish_stage e"
  shows "finish_run Q lo hi' s (log_event e s1')"
proof -
  from assms(1) obtain steps where st: "events s1 = events s @ map fst steps"
    "snapshots s1 = snapshots s @ map snd steps" "list_all Q steps"
    "sorted (map (finish_stage \<circ> fst) steps)"
    "\<forall>st \<in> set steps. lo \<le> finish_stage (fst st) \<and> finish_stage (fst st) \<le> hi"
    unfolding finish_run_def by blast
  show ?thesis
    unfolding finish_run_def
    using st assms(2-)
    by (intro exI [of _ "steps @ [(e, snapshot_of s1')]"])
       (auto simp: sorted_append)
qed

lemma finish_run_callbacks:
  assumes "finish_run Q lo hi s s1"
    and "\<forall>e \<in> set es. Q (e, snapshot_of s1) \<and> finish_stage e = hi" "lo \<le> hi"
  shows "finish_run Q lo hi s
           (s1\<lparr>events := events s1 @ es,
               snapshots := snapshots s1 @ replicate (length es) (snapshot_of s1)\<rparr>)"
proof -
  from assms(1) obtain steps where st: "events s1 = events s @ map fst steps"
    "snapshots s1 = snapshots s @ map snd steps" "list_all Q steps"
    "sorted (map (finish_stage \<circ> fst) steps)"
    "\<forall>st \<in> set steps. lo \<le> finish_stage (fst st) \<and> finish_stage (fst st) \<le> hi"
    unfolding finish_run_def by blast
  have m: "map snd (map (\<lambda>e. (e, snapshot_of s1)) es) = replicate (length es) (snapshot_of s1)"
    by (induction es) simp_all
  have srt: "sorted (map (finish_stage \<circ> fst) (map (\<lambda>e. (e, snapshot_of s1)) es))"
    using assms(2) by (induction es) (auto simp: comp_def)
  show ?thesis
    unfolding finish_run_def
    using st assms(2-) m srt
    by (intro exI [of _ "steps @ map (\<lambda>e. (e, snapshot_of s1)) es"])
       (auto simp: sorted_append list_all_iff comp_def)
qed

lemma finish_run_trans:
  assumes "finish_run Q lo1 hi1 s s1" "finish_run Q lo2 hi2 s1 s2" "hi1 \<le> lo2" "lo1 \<le> lo2"
    "hi1 \<le> hi2"
  shows "finish_run Q lo1 hi2 s s2"
proof -
  from assms(1) obtain steps where st: "events s1 = events s @ map fst steps"
    "snapshots s1 = snapshots s @ map snd steps" "list_all Q steps"
    "sorted (map (finish_stage \<circ> fst) steps)"
    "\<forall>st \<in> set steps. lo1 \<le> finish_stage (fst st) \<and> finish_stage (fst st) \<le> hi1"
    unfolding finish_run_def by blast
  from assms(2) obtain steps2 where st2: "events s2 = events s1 @ map fst steps2"
    "snapshots s2 = snapshots s1 @ map snd steps2" "list_all Q steps2"
    "sorted (map (finish_stage \<circ> fst) steps2)"
    "\<forall>st \<in> set steps2. lo2 \<le> finish_stage (fst st) \<and> finish_stage (fst st) \<le> hi2"
    unfolding finish_run_def by blast
  show ?thesis
    unfolding finish_run_def
    using st st2 assms(3-)
    by (intro exI [of _ "steps @ steps2"]) (fastforce simp: sorted_append)
qed

lemma new_events_append: "events s' = events s @ es \<Longrightarrow> new_events s s' = es"
  by (simp add: new_events_def)

lemma Finish_cleanup_steps:
  assumes run: "Finish_cleanup c gxact isCommit x latestXid buf hdr s = (res, s')"
    and p: "p = pgprocno (gxacts (tp s) gxact)"
    and pa: "procArray (tp s) = pa" "p \<in> set pa" "distinct pa"
    and en: "valid (gxacts (tp s) gxact)" "gxact \<in> set (prepXacts (tp s))"
      "distinct (prepXacts (tp s))"
    and du: "outcome_durable isCommit b (xlog s)" and st: "status_set isCommit x (clog s)"
  shows "finish_run (finish_step_ok isCommit x p gxact b cl pa) 4 5 s s' \<and>
         xlog s' = xlog s \<and> clog s' = clog s \<and>
         (res = Inr True \<longrightarrow>
            shadow_gone p (tp s') \<and> entry_invalid gxact (tp s') \<and> entry_removed gxact (tp s') \<and>
            gxact \<in> set (freeGXacts (tp s')) \<and> x \<notin> fst ` set (recover_map s') \<and>
            (\<exists>l. EvProcArrayRemove p l \<in> set (new_events s s')) \<and>
            EvGXactInvalidated gxact \<in> set (new_events s s') \<and>
            (\<exists>rels n. EvDropRelationFiles rels n \<in> set (new_events s s')) \<and>
            (\<exists>msgs n. EvSendSharedInvalidMessages msgs n \<in> set (new_events s s')) \<and>
            EvRemoveGXact gxact \<in> set (new_events s s'))"
proof -
  let ?szrel = "sizeof_RelFileNodePendingDelete c"
  let ?szmsg = "sizeof_SharedInvalidationMessage c"
  define Q where "Q = finish_step_ok isCommit x p gxact b cl pa"
  define good where "good st \<longleftrightarrow> xlog st = xlog s \<and> clog st = clog s \<and>
      procArray (tp st) = remove1 p pa \<and> \<not> valid (gxacts (tp st) gxact) \<and>
      prepXacts (tp st) = prepXacts (tp s) \<and> recover_map st = recover_map s"
    for st :: system_state
  define s0 where "s0 = s\<lparr>tp := (tp s)\<lparr>procArray := remove1 p (procArray (tp s))\<rparr>\<rparr>"
  define s1 where "s1 = log_event (EvProcArrayRemove p latestXid) s0"
  define s1a where "s1a = s1\<lparr>tp := (tp s1)\<lparr>gxacts := (gxacts (tp s1))
                                   (gxact := (gxacts (tp s1) gxact)\<lparr>valid := False\<rparr>)\<rparr>\<rparr>"
  define s2 where "s2 = log_event (EvGXactInvalidated gxact) s1a"
  define delrels where "delrels = (if isCommit then commitrels_at hdr else abortrels_at ?szrel hdr)"
  define ndelrels where "ndelrels = (if isCommit then hdr_ncommitrels hdr else hdr_nabortrels hdr)"
  have gone: "p \<notin> set (remove1 p pa)" using pa(3) by simp
  have q1: "Q (EvProcArrayRemove p latestXid, snapshot_of s0)"
    using du st gone en pa
    by (simp add: Q_def finish_step_ok_def s0_def snapshot_of_def shadow_gone_def
        entry_invalid_def entry_removed_def)
  have r1: "finish_run Q 4 4 s s1"
    unfolding s1_def
    by (rule finish_run_step [OF finish_run_nil [of s s Q 4 4] _ _ q1])
       (simp_all add: s0_def)
  have q2: "Q (EvGXactInvalidated gxact, snapshot_of s1a)"
    using du st gone en pa
    by (simp add: Q_def finish_step_ok_def s1a_def s1_def s0_def snapshot_of_def shadow_gone_def
        entry_invalid_def entry_removed_def)
  have r2: "finish_run Q 4 5 s s2"
    unfolding s2_def
    by (rule finish_run_step [OF r1 _ _ q2]) (simp_all add: s1a_def)
  have g2: "good s2"
    using pa by (simp add: good_def s2_def s1a_def s1_def s0_def)
  have ev2: "events s2 = events s @ [EvProcArrayRemove p latestXid, EvGXactInvalidated gxact]"
    by (simp add: s2_def s1a_def s1_def s0_def)
  have stepQ: "Q (e, snapshot_of st)"
    if "good st" "finish_stage e = 5" "step_effect isCommit x p gxact b cl pa e (snapshot_of st)"
      "e \<noteq> EvRemoveGXact gxact" for e st
    using that du st gone en
    by (simp add: Q_def finish_step_ok_def good_def snapshot_of_def shadow_gone_def
        entry_invalid_def entry_removed_def)
  have step: "finish_run Q 4 5 s (log_event e st) \<and> good (log_event e st)"
    if "finish_run Q 4 5 s st" "good st" "finish_stage e = 5"
      "step_effect isCommit x p gxact b cl pa e (snapshot_of st)" "e \<noteq> EvRemoveGXact gxact"
    for e st
  proof
    show "finish_run Q 4 5 s (log_event e st)"
      by (rule finish_run_step [OF that(1) refl refl stepQ [OF that(2,3,4,5)]])
         (simp_all add: that(3))
    show "good (log_event e st)" using that(2) by (simp add: good_def)
  qed
  have unf: "Finish_cleanup c gxact isCommit x latestXid buf hdr s =
      (case array_at delrels (count_of ndelrels * ?szrel) buf of
           None \<Rightarrow> (Inl InvalidMemoryAccess, s2)
         | Some rels \<Rightarrow>
             (let s3 = log_event (EvDropRelationFiles rels ndelrels) s2;
                  s4 = (if hdr_initfileinval hdr
                        then log_event EvRelationCacheInitFilePreInvalidate s3 else s3)
              in case array_at (invalmsgs_at ?szrel hdr)
                        (count_of (hdr_ninvalmsgs hdr) * ?szmsg) buf of
                   None \<Rightarrow> (Inl InvalidMemoryAccess, s4)
                 | Some msgs \<Rightarrow>
                     (let s5 = log_event (EvSendSharedInvalidMessages msgs (hdr_ninvalmsgs hdr)) s4;
                          s6 = (if hdr_initfileinval hdr
                                then log_event EvRelationCacheInitFilePostInvalidate s5 else s5);
                          ph = (if isCommit then postcommit_phase else postabort_phase)
                      in case ProcessRecords (callbacks_of c ph) buf
                                (records_at ?szrel ?szmsg hdr) x s6 of
                           (Inl e, s7) \<Rightarrow> (Inl e, s7)
                         | (Inr u, s7) \<Rightarrow>
                             (let s8 = log_event (EvPredicateLockTwoPhaseFinish x isCommit) s7;
                                  s9 = log_event (EvAtEOXact_PgStat isCommit) s8;
                                  s10 = log_event (EvRemoveRecoverMapEntry x)
                                          (s9\<lparr>recover_map :=
                                                remove_recover_post_checkpoint_prepared_transactions_map_entry
                                                  x (recover_map s9)\<rparr>)
                              in case RemoveGXact gxact (tp s10) of
                                   (Inl e, t) \<Rightarrow> (Inl e, s10\<lparr>tp := t\<rparr>)
                                 | (Inr u, t) \<Rightarrow>
                                     (Inr True,
                                      log_event (EvRemoveGXact gxact)
                                        (s10\<lparr>tp := t\<lparr>MyLockedGxact := None\<rparr>\<rparr>))))))"
    unfolding Finish_cleanup_def Let_def s2_def s1a_def s1_def s0_def delrels_def ndelrels_def p
    by simp
  have fin: ?thesis if "s' = st" "res \<noteq> Inr True" "finish_run Q 4 5 s st" "good st" for st
    using that by (simp add: good_def Q_def)
  show ?thesis
  proof (cases "array_at delrels (count_of ndelrels * ?szrel) buf")
    case None
    with run unf have "s' = s2" "res = Inl InvalidMemoryAccess" by simp_all
    then show ?thesis using r2 g2 by (intro fin [of s2]) simp_all
  next
    case rels: (Some rels)
    define s3 where "s3 = log_event (EvDropRelationFiles rels ndelrels) s2"
    define s4 where "s4 = (if hdr_initfileinval hdr
                        then log_event EvRelationCacheInitFilePreInvalidate s3 else s3)"
    have r3: "finish_run Q 4 5 s s3 \<and> good s3"
      unfolding s3_def by (rule step [OF r2 g2]) simp_all
    have r4: "finish_run Q 4 5 s s4 \<and> good s4"
    proof (cases "hdr_initfileinval hdr")
      case True
      then have "s4 = log_event EvRelationCacheInitFilePreInvalidate s3" by (simp add: s4_def)
      then show ?thesis using step [OF conjunct1 [OF r3] conjunct2 [OF r3],
            of EvRelationCacheInitFilePreInvalidate] by simp
    next
      case False
      then show ?thesis using r3 by (simp add: s4_def)
    qed
    have ev4: "\<exists>pre. events s4 = events s2 @ EvDropRelationFiles rels ndelrels # pre"
      by (simp add: s4_def s3_def)
    have unf2: "Finish_cleanup c gxact isCommit x latestXid buf hdr s =
      (case array_at (invalmsgs_at ?szrel hdr) (count_of (hdr_ninvalmsgs hdr) * ?szmsg) buf of
         None \<Rightarrow> (Inl InvalidMemoryAccess, s4)
       | Some msgs \<Rightarrow>
           (let s5 = log_event (EvSendSharedInvalidMessages msgs (hdr_ninvalmsgs hdr)) s4;
                s6 = (if hdr_initfileinval hdr
                      then log_event EvRelationCacheInitFilePostInvalidate s5 else s5);
                ph = (if isCommit then postcommit_phase else postabort_phase)
            in case ProcessRecords (callbacks_of c ph) buf
                      (records_at ?szrel ?szmsg hdr) x s6 of
                 (Inl e, s7) \<Rightarrow> (Inl e, s7)
               | (Inr u, s7) \<Rightarrow>
                   (let s8 = log_event (EvPredicateLockTwoPhaseFinish x isCommit) s7;
                        s9 = log_event (EvAtEOXact_PgStat isCommit) s8;
                        s10 = log_event (EvRemoveRecoverMapEntry x)
                                (s9\<lparr>recover_map :=
                                      remove_recover_post_checkpoint_prepared_transactions_map_entry
                                        x (recover_map s9)\<rparr>)
                    in case RemoveGXact gxact (tp s10) of
                         (Inl e, t) \<Rightarrow> (Inl e, s10\<lparr>tp := t\<rparr>)
                       | (Inr u, t) \<Rightarrow>
                           (Inr True,
                            log_event (EvRemoveGXact gxact)
                              (s10\<lparr>tp := t\<lparr>MyLockedGxact := None\<rparr>\<rparr>)))))"
      unfolding unf rels option.case Let_def s3_def s4_def ..
    show ?thesis
    proof (cases "array_at (invalmsgs_at ?szrel hdr) (count_of (hdr_ninvalmsgs hdr) * ?szmsg) buf")
      case None
      with run unf2 have "s' = s4" "res = Inl InvalidMemoryAccess"
        by simp_all
      then show ?thesis using r4 by (intro fin [of s4]) simp_all
    next
      case msgs: (Some msgs)
      define s5 where "s5 = log_event (EvSendSharedInvalidMessages msgs (hdr_ninvalmsgs hdr)) s4"
      define s6 where "s6 = (if hdr_initfileinval hdr
                                then log_event EvRelationCacheInitFilePostInvalidate s5 else s5)"
      define ph where "ph = (if isCommit then postcommit_phase else postabort_phase)"
      have r5: "finish_run Q 4 5 s s5 \<and> good s5"
        unfolding s5_def by (rule step [OF conjunct1 [OF r4] conjunct2 [OF r4]]) simp_all
      have r6: "finish_run Q 4 5 s s6 \<and> good s6"
      proof (cases "hdr_initfileinval hdr")
        case True
        then have "s6 = log_event EvRelationCacheInitFilePostInvalidate s5" by (simp add: s6_def)
        then show ?thesis using step [OF conjunct1 [OF r5] conjunct2 [OF r5],
              of EvRelationCacheInitFilePostInvalidate] by simp
      next
        case False
        then show ?thesis using r5 by (simp add: s6_def)
      qed
      have unf3: "Finish_cleanup c gxact isCommit x latestXid buf hdr s =
        (case ProcessRecords (callbacks_of c ph) buf (records_at ?szrel ?szmsg hdr) x s6 of
           (Inl e, s7) \<Rightarrow> (Inl e, s7)
         | (Inr u, s7) \<Rightarrow>
             (let s8 = log_event (EvPredicateLockTwoPhaseFinish x isCommit) s7;
                  s9 = log_event (EvAtEOXact_PgStat isCommit) s8;
                  s10 = log_event (EvRemoveRecoverMapEntry x)
                          (s9\<lparr>recover_map :=
                                remove_recover_post_checkpoint_prepared_transactions_map_entry
                                  x (recover_map s9)\<rparr>)
              in case RemoveGXact gxact (tp s10) of
                   (Inl e, t) \<Rightarrow> (Inl e, s10\<lparr>tp := t\<rparr>)
                 | (Inr u, t) \<Rightarrow>
                     (Inr True,
                      log_event (EvRemoveGXact gxact)
                        (s10\<lparr>tp := t\<lparr>MyLockedGxact := None\<rparr>\<rparr>))))"
        unfolding unf2 msgs option.case Let_def s5_def s6_def ph_def ..
      have ev6: "\<exists>post. events s6 =
                   events s4 @ EvSendSharedInvalidMessages msgs (hdr_ninvalmsgs hdr) # post"
        by (simp add: s6_def s5_def)
      obtain rp s7 where pr: "ProcessRecords (callbacks_of c ph) buf
                                (records_at ?szrel ?szmsg hdr) x s6 = (rp, s7)"
        by fastforce
      from ProcessRecords_steps [of c ph buf "records_at ?szrel ?szmsg hdr" x s6]
      obtain es where es: "s7 = s6\<lparr>events := events s6 @ es,
            snapshots := snapshots s6 @ replicate (length es) (snapshot_of s6)\<rparr>"
        "\<forall>e \<in> set es. \<exists>r i d. e = EvCallback ph r x i d"
        unfolding pr by auto
      have cbq: "\<forall>e \<in> set es. Q (e, snapshot_of s6) \<and> finish_stage e = 5"
      proof
        fix e assume "e \<in> set es"
        with es(2) obtain r i d where e: "e = EvCallback ph r x i d" by blast
        show "Q (e, snapshot_of s6) \<and> finish_stage e = 5"
          using stepQ [OF conjunct2 [OF r6], of e] by (simp add: e ph_def)
      qed
      have r7: "finish_run Q 4 5 s s7"
        unfolding es(1) by (rule finish_run_callbacks [OF conjunct1 [OF r6] cbq]) simp
      have g7: "good s7" using conjunct2 [OF r6] by (simp add: good_def es(1))
      have ev7: "events s7 = events s6 @ es" by (simp add: es(1))
      show ?thesis
      proof (cases rp)
        case (Inl e)
        with run unf3 pr have "s' = s7" "res = Inl e"
          by simp_all
        then show ?thesis using r7 g7 by (intro fin [of s7]) simp_all
      next
        case (Inr u)
        define s8 where "s8 = log_event (EvPredicateLockTwoPhaseFinish x isCommit) s7"
        define s9 where "s9 = log_event (EvAtEOXact_PgStat isCommit) s8"
        define s9a where "s9a = s9\<lparr>recover_map :=
            remove_recover_post_checkpoint_prepared_transactions_map_entry x (recover_map s9)\<rparr>"
        define s10 where "s10 = log_event (EvRemoveRecoverMapEntry x) s9a"
        have r8: "finish_run Q 4 5 s s8 \<and> good s8"
          unfolding s8_def by (rule step [OF r7 g7]) simp_all
        have r9: "finish_run Q 4 5 s s9 \<and> good s9"
          unfolding s9_def by (rule step [OF conjunct1 [OF r8] conjunct2 [OF r8]]) simp_all
        have g9a: "good (s9a\<lparr>recover_map := recover_map s\<rparr>)"
          using conjunct2 [OF r9] by (simp add: good_def s9a_def)
        have nk: "x \<notin> fst ` set (recover_map s9a)"
          by (auto simp: s9a_def remove_recover_post_checkpoint_prepared_transactions_map_entry_def)
        have q10: "Q (EvRemoveRecoverMapEntry x, snapshot_of s9a)"
          using conjunct2 [OF r9] du st gone en nk
          by (simp add: Q_def finish_step_ok_def good_def snapshot_of_def shadow_gone_def
              entry_invalid_def entry_removed_def s9a_def)
        have r10: "finish_run Q 4 5 s s10"
          unfolding s10_def
          by (rule finish_run_step [OF conjunct1 [OF r9] _ _ q10]) (simp_all add: s9a_def)
        have t10: "xlog s10 = xlog s" "clog s10 = clog s" "procArray (tp s10) = remove1 p pa"
          "\<not> valid (gxacts (tp s10) gxact)" "prepXacts (tp s10) = prepXacts (tp s)"
          "x \<notin> fst ` set (recover_map s10)"
          using conjunct2 [OF r9] nk by (simp_all add: good_def s10_def s9a_def)
        from RemoveGXact_member [of gxact "tp s10"] en t10(5)
        obtain t where t: "RemoveGXact gxact (tp s10) = (Inr (), t)"
          "set (prepXacts t) = set (prepXacts (tp s10)) - {gxact}"
          "freeGXacts t = gxact # freeGXacts (tp s10)"
          "t = (tp s10)\<lparr>prepXacts := prepXacts t, freeGXacts := gxact # freeGXacts (tp s10)\<rparr>"
          by auto
        have tf: "procArray t = remove1 p pa" "\<not> valid (gxacts t gxact)"
          using t10 by (subst t(4), simp)+
        define s11 where "s11 = s10\<lparr>tp := t\<lparr>MyLockedGxact := None\<rparr>\<rparr>"
        have "Finish_cleanup c gxact isCommit x latestXid buf hdr s =
                (case RemoveGXact gxact (tp s10) of
                   (Inl e, t) \<Rightarrow> (Inl e, s10\<lparr>tp := t\<rparr>)
                 | (Inr u, t) \<Rightarrow>
                     (Inr True,
                      log_event (EvRemoveGXact gxact)
                        (s10\<lparr>tp := t\<lparr>MyLockedGxact := None\<rparr>\<rparr>)))"
          unfolding unf3 pr Inr prod.case sum.case Let_def s8_def s9_def s9a_def s10_def ..
        with run t(1)
        have s': "s' = log_event (EvRemoveGXact gxact) s11" and res: "res = Inr True"
          by (simp_all add: s11_def)
        have q11: "Q (EvRemoveGXact gxact, snapshot_of s11)"
          using du st gone tf t(2,3) t10
          by (simp add: Q_def finish_step_ok_def snapshot_of_def shadow_gone_def
              entry_invalid_def entry_removed_def s11_def)
        have r11: "finish_run Q 4 5 s s'"
          unfolding s'
          by (rule finish_run_step [OF r10 _ _ q11]) (simp_all add: s11_def)
        from ev4 ev6 obtain pre post where
          ev: "events s4 = events s2 @ EvDropRelationFiles rels ndelrels # pre"
            "events s6 = events s4 @ EvSendSharedInvalidMessages msgs (hdr_ninvalmsgs hdr) # post"
          by blast
        have evs: "events s' = events s @
            ([EvProcArrayRemove p latestXid, EvGXactInvalidated gxact] @
             EvDropRelationFiles rels ndelrels # pre @
             EvSendSharedInvalidMessages msgs (hdr_ninvalmsgs hdr) # post @ es @
             [EvPredicateLockTwoPhaseFinish x isCommit, EvAtEOXact_PgStat isCommit,
              EvRemoveRecoverMapEntry x, EvRemoveGXact gxact])"
          by (simp add: s' s11_def s10_def s9a_def s9_def s8_def ev7 ev ev2)
        note ne = new_events_append [OF evs]
        have f1: "xlog s' = xlog s" "clog s' = clog s"
          by (simp_all add: s' s11_def t10)
        have f2: "shadow_gone p (tp s')" "entry_invalid gxact (tp s')"
          "entry_removed gxact (tp s')" "gxact \<in> set (freeGXacts (tp s'))"
          "x \<notin> fst ` set (recover_map s')"
          using tf t(2,3) t10(6) gone
          by (simp_all add: s' s11_def shadow_gone_def entry_invalid_def entry_removed_def)
        have f3: "\<exists>l. EvProcArrayRemove p l \<in> set (new_events s s')"
          "EvGXactInvalidated gxact \<in> set (new_events s s')"
          "\<exists>rels n. EvDropRelationFiles rels n \<in> set (new_events s s')"
          "\<exists>msgs n. EvSendSharedInvalidMessages msgs n \<in> set (new_events s s')"
          "EvRemoveGXact gxact \<in> set (new_events s s')"
          unfolding ne by auto
        show ?thesis
          unfolding Q_def [symmetric]
          using r11 f1 f2 f3 by blast
      qed
    qed
  qed
qed

lemma finish_run_new_events:
  assumes "finish_run Q lo hi s s'"
  shows "length (new_snapshots s s') = length (new_events s s')"
    and "sorted (map finish_stage (new_events s s'))"
    and "list_all Q (new_steps s s')"
proof -
  from assms obtain steps where st: "events s' = events s @ map fst steps"
    "snapshots s' = snapshots s @ map snd steps" "list_all Q steps"
    "sorted (map (finish_stage \<circ> fst) steps)"
    unfolding finish_run_def by blast
  have e: "new_events s s' = map fst steps" by (simp add: new_events_def st(1))
  have n: "new_snapshots s s' = map snd steps" by (simp add: new_snapshots_def st(2))
  show "length (new_snapshots s s') = length (new_events s s')" by (simp add: e n)
  show "sorted (map finish_stage (new_events s s'))" using st(4) by (simp add: e comp_def)
  show "list_all Q (new_steps s s')" using st(3) by (simp add: new_steps_def e n zip_map_fst_snd)
qed

lemma new_events_trans:
  assumes "events s1 = events s @ a" "events s2 = events s1 @ b"
  shows "new_events s s2 = new_events s s1 @ new_events s1 s2"
  using assms by (simp add: new_events_def)

lemma Finish_record_steps:
  assumes run: "Finish_record c gxact g isCommit x buf s = (res, s')"
    and p: "p = pgprocno (gxacts (tp s) gxact)"
    and pa: "p \<in> set (procArray (tp s))" "distinct (procArray (tp s))"
    and en: "valid (gxacts (tp s) gxact)" "gxact \<in> set (prepXacts (tp s))"
      "distinct (prepXacts (tp s))"
  shows "finish_run (finish_step_ok isCommit x p gxact (xlog_insert_pos (xlog s)) (clog s)
                       (procArray (tp s))) 0 5 s s' \<and>
         (res = Inr True \<longrightarrow>
            outcome_durable isCommit (xlog_insert_pos (xlog s)) (xlog s') \<and>
            outcome_names c isCommit x g (xlog_insert_pos (xlog s)) (xlog s') \<and>
            status_set isCommit x (clog s') \<and>
            shadow_gone p (tp s') \<and> entry_invalid gxact (tp s') \<and> entry_removed gxact (tp s') \<and>
            gxact \<in> set (freeGXacts (tp s')) \<and> x \<notin> fst ` set (recover_map s') \<and>
            (\<exists>l. EvXLogInsert (outcome_kind isCommit) l \<in> set (new_events s s') \<and>
                 EvXLogFlush l \<in> set (new_events s s')) \<and>
            (\<exists>xs. (if isCommit then EvTransactionIdCommitTree x xs
                    else EvTransactionIdAbortTree x xs) \<in> set (new_events s s')) \<and>
            (\<exists>l. EvProcArrayRemove p l \<in> set (new_events s s')) \<and>
            EvGXactInvalidated gxact \<in> set (new_events s s') \<and>
            (\<exists>rels n. EvDropRelationFiles rels n \<in> set (new_events s s')) \<and>
            (\<exists>msgs n. EvSendSharedInvalidMessages msgs n \<in> set (new_events s s')) \<and>
            EvRemoveGXact gxact \<in> set (new_events s s'))"
proof -
  let ?b = "xlog_insert_pos (xlog s)"
  define Q where "Q = finish_step_ok isCommit x p gxact ?b (clog s) (procArray (tp s))"
  define hdr where "hdr = read_TwoPhaseFileHeader buf"
  let ?szrel = "sizeof_RelFileNodePendingDelete c"
  have fin: ?thesis if "s' = s" "res \<noteq> Inr True"
    using that finish_run_nil [of s s] by simp
  show ?thesis
  proof (cases "length buf < sizeof_TwoPhaseFileHeader \<or>
                xids_at children_at (hdr_nsubxacts hdr) buf = None")
    case True
    with run have "s' = s" "res = Inl InvalidMemoryAccess"
      by (auto simp: Finish_record_def Let_def hdr_def split: if_splits)
    then show ?thesis by (intro fin) simp_all
  next
    case False
    then obtain xs where xs: "xids_at children_at (hdr_nsubxacts hdr) buf = Some xs"
      and len: "\<not> length buf < sizeof_TwoPhaseFileHeader" by auto
    define latestXid where "latestXid = TransactionIdLatest c x xs"
    obtain r1 s1 where rec:
      "(if isCommit
        then RecordTransactionCommitPrepared c x g
               (hdr_nsubxacts hdr) children_at (hdr_ncommitrels hdr) (commitrels_at hdr)
               (hdr_ninvalmsgs hdr) (invalmsgs_at ?szrel hdr) buf s
        else RecordTransactionAbortPrepared c x
               (hdr_nsubxacts hdr) children_at (hdr_nabortrels hdr) (abortrels_at ?szrel hdr)
               buf s) = (r1, s1)"
      by fastforce
    have unf: "Finish_record c gxact g isCommit x buf s =
        (case (r1, s1) of
           (Inl e, s1) \<Rightarrow> (Inl e, s1)
         | (Inr u, s1) \<Rightarrow> Finish_cleanup c gxact isCommit x latestXid buf hdr s1)"
      unfolding rec [symmetric] latestXid_def
      by (simp add: Finish_record_def Let_def len xs hdr_def [symmetric])
    have ph1: "\<exists>steps. events s1 = events s @ map fst steps \<and>
           snapshots s1 = snapshots s @ map snd steps \<and>
           tp s1 = tp s \<and> recover_map s1 = recover_map s \<and>
           sorted (map (finish_stage \<circ> fst) steps) \<and>
           (\<forall>st \<in> set steps. finish_stage (fst st) \<le> 3) \<and>
           list_all Q steps \<and>
           (r1 = Inr () \<longrightarrow>
              outcome_durable isCommit ?b (xlog s1) \<and>
              outcome_names c isCommit x g ?b (xlog s1) \<and>
              status_set isCommit x (clog s1) \<and>
              (\<exists>l. EvXLogInsert (outcome_kind isCommit) l \<in> fst ` set steps \<and>
                   EvXLogFlush l \<in> fst ` set steps) \<and>
              (\<exists>xs. (if isCommit then EvTransactionIdCommitTree x xs
                      else EvTransactionIdAbortTree x xs) \<in> fst ` set steps))"
    proof (cases isCommit)
      case True
      with rec have "RecordTransactionCommitPrepared c x g
               (hdr_nsubxacts hdr) children_at (hdr_ncommitrels hdr) (commitrels_at hdr)
               (hdr_ninvalmsgs hdr) (invalmsgs_at ?szrel hdr) buf s = (r1, s1)" by simp
      from RecordTransactionCommitPrepared_steps [OF this pa(1) en(1,2)]
      show ?thesis unfolding Q_def using True by simp
    next
      case False
      with rec have "RecordTransactionAbortPrepared c x
               (hdr_nsubxacts hdr) children_at (hdr_nabortrels hdr) (abortrels_at ?szrel hdr)
               buf s = (r1, s1)" by simp
      from RecordTransactionAbortPrepared_steps [OF this pa(1) en(1,2), where g = g]
      show ?thesis unfolding Q_def using False by simp
    qed
    then obtain steps where st: "events s1 = events s @ map fst steps"
           "snapshots s1 = snapshots s @ map snd steps"
           "tp s1 = tp s" "recover_map s1 = recover_map s"
           "sorted (map (finish_stage \<circ> fst) steps)"
           "\<forall>st \<in> set steps. finish_stage (fst st) \<le> 3"
           "list_all Q steps"
      and ok1: "r1 = Inr () \<Longrightarrow>
              outcome_durable isCommit ?b (xlog s1) \<and>
              outcome_names c isCommit x g ?b (xlog s1) \<and>
              status_set isCommit x (clog s1) \<and>
              (\<exists>l. EvXLogInsert (outcome_kind isCommit) l \<in> fst ` set steps \<and>
                   EvXLogFlush l \<in> fst ` set steps) \<and>
              (\<exists>xs. (if isCommit then EvTransactionIdCommitTree x xs
                      else EvTransactionIdAbortTree x xs) \<in> fst ` set steps)"
      by blast
    have r03: "finish_run Q 0 3 s s1"
      unfolding finish_run_def using st by (intro exI [of _ steps]) simp
    have ne1: "new_events s s1 = map fst steps" by (simp add: new_events_def st(1))
    show ?thesis
    proof (cases r1)
      case (Inl e)
      with run unf have "s' = s1" "res = Inl e" by simp_all
      moreover have "finish_run Q 0 5 s s1"
        by (rule finish_run_trans [OF r03 finish_run_nil [of s1 s1 Q 4 5]]) simp_all
      ultimately show ?thesis unfolding Q_def [symmetric] by simp
    next
      case (Inr u)
      then have r1: "r1 = Inr ()" by simp
      note k = ok1 [OF r1]
      from run unf Inr have cl: "Finish_cleanup c gxact isCommit x latestXid buf hdr s1 = (res, s')"
        by simp
      have p1: "p = pgprocno (gxacts (tp s1) gxact)" using p st(3) by simp
      note fc = Finish_cleanup_steps [OF cl p1, of "procArray (tp s)" ?b "clog s",
          folded Q_def]
      have c2: "finish_run Q 4 5 s1 s' \<and> xlog s' = xlog s1 \<and> clog s' = clog s1 \<and>
         (res = Inr True \<longrightarrow>
            shadow_gone p (tp s') \<and> entry_invalid gxact (tp s') \<and> entry_removed gxact (tp s') \<and>
            gxact \<in> set (freeGXacts (tp s')) \<and> x \<notin> fst ` set (recover_map s') \<and>
            (\<exists>l. EvProcArrayRemove p l \<in> set (new_events s1 s')) \<and>
            EvGXactInvalidated gxact \<in> set (new_events s1 s') \<and>
            (\<exists>rels n. EvDropRelationFiles rels n \<in> set (new_events s1 s')) \<and>
            (\<exists>msgs n. EvSendSharedInvalidMessages msgs n \<in> set (new_events s1 s')) \<and>
            EvRemoveGXact gxact \<in> set (new_events s1 s'))"
        using pa en k by (intro fc) (simp_all add: st(3))
      have r05: "finish_run Q 0 5 s s'"
        by (rule finish_run_trans [OF r03 conjunct1 [OF c2]]) simp_all
      from conjunct1 [OF c2] obtain steps2 :: "(event \<times> snapshot) list"
        where "events s' = events s1 @ map fst steps2"
        unfolding finish_run_def by blast
      note ne = new_events_trans [OF st(1) this]
      have sub: "set (new_events s s1) \<subseteq> set (new_events s s')"
        "set (new_events s1 s') \<subseteq> set (new_events s s')"
        unfolding ne by auto
      have k1: "\<exists>l. EvXLogInsert (outcome_kind isCommit) l \<in> set (new_events s s') \<and>
                   EvXLogFlush l \<in> set (new_events s s')"
      proof -
        from k obtain l where "EvXLogInsert (outcome_kind isCommit) l \<in> set (new_events s s1)"
          "EvXLogFlush l \<in> set (new_events s s1)" unfolding ne1 by auto
        with sub(1) show ?thesis by blast
      qed
      have k2: "\<exists>xs. (if isCommit then EvTransactionIdCommitTree x xs
                      else EvTransactionIdAbortTree x xs) \<in> set (new_events s s')"
      proof -
        from k obtain xs where "(if isCommit then EvTransactionIdCommitTree x xs
                      else EvTransactionIdAbortTree x xs) \<in> set (new_events s s1)"
          unfolding ne1 by auto
        with sub(1) show ?thesis by blast
      qed
      have k3: "outcome_durable isCommit ?b (xlog s')" "outcome_names c isCommit x g ?b (xlog s')"
        "status_set isCommit x (clog s')"
        using k c2 by simp_all
      have k4: "shadow_gone p (tp s') \<and> entry_invalid gxact (tp s') \<and>
            entry_removed gxact (tp s') \<and>
            gxact \<in> set (freeGXacts (tp s')) \<and> x \<notin> fst ` set (recover_map s')"
        if "res = Inr True" using c2 that by blast
      have k5: "(\<exists>l. EvProcArrayRemove p l \<in> set (new_events s s')) \<and>
            EvGXactInvalidated gxact \<in> set (new_events s s') \<and>
            (\<exists>rels n. EvDropRelationFiles rels n \<in> set (new_events s s')) \<and>
            (\<exists>msgs n. EvSendSharedInvalidMessages msgs n \<in> set (new_events s s')) \<and>
            EvRemoveGXact gxact \<in> set (new_events s s')"
        if "res = Inr True"
      proof -
        from c2 that have "(\<exists>l. EvProcArrayRemove p l \<in> set (new_events s1 s'))"
            "EvGXactInvalidated gxact \<in> set (new_events s1 s')"
            "(\<exists>rels n. EvDropRelationFiles rels n \<in> set (new_events s1 s'))"
            "(\<exists>msgs n. EvSendSharedInvalidMessages msgs n \<in> set (new_events s1 s'))"
            "EvRemoveGXact gxact \<in> set (new_events s1 s')"
          by blast+
        with sub(2) show ?thesis by blast
      qed
      show ?thesis
        unfolding Q_def [symmetric]
        using r05 k1 k2 k3 k4 k5 by blast
    qed
  qed
qed

lemma ProcessRecords_fields [simp]:
  "tp (snd (ProcessRecords (callbacks_of c ph) buf off x s)) = tp s"
  "recover_map (snd (ProcessRecords (callbacks_of c ph) buf off x s)) = recover_map s"
  "xlog (snd (ProcessRecords (callbacks_of c ph) buf off x s)) = xlog s"
  "clog (snd (ProcessRecords (callbacks_of c ph) buf off x s)) = clog s"
  "nextXid (snd (ProcessRecords (callbacks_of c ph) buf off x s)) = nextXid s"
proof -
  obtain es where "snd (ProcessRecords (callbacks_of c ph) buf off x s) =
      s\<lparr>events := events s @ es,
        snapshots := snapshots s @ replicate (length es) (snapshot_of s)\<rparr>"
    using ProcessRecords_steps by blast
  then show "tp (snd (ProcessRecords (callbacks_of c ph) buf off x s)) = tp s"
    "recover_map (snd (ProcessRecords (callbacks_of c ph) buf off x s)) = recover_map s"
    "xlog (snd (ProcessRecords (callbacks_of c ph) buf off x s)) = xlog s"
    "clog (snd (ProcessRecords (callbacks_of c ph) buf off x s)) = clog s"
    "nextXid (snd (ProcessRecords (callbacks_of c ph) buf off x s)) = nextXid s"
    by simp_all
qed

lemma RemoveGXact_ok:
  "gxact \<in> set (prepXacts t) \<Longrightarrow> fst (RemoveGXact gxact t) = Inr ()"
  using RemoveGXact_find_mem [of gxact "prepXacts t" 0]
  by (auto simp: RemoveGXact_def)

lemma array_at_slice:
  "slice off len buf = Some d \<Longrightarrow> length d = len \<Longrightarrow> array_at off len buf = Some d"
  by (auto simp: array_at_def)

lemma slice_length: "slice off len buf = Some d \<Longrightarrow> length d = len"
  by (auto simp: slice_def split: if_splits)

lemma state_file_layout_reads:
  fixes u :: "nat \<Rightarrow> byte" and recs :: "rmgr_record list"
  assumes ok: "prepare_data_ok szrel szmsg pd" and hc: "header_counts h pd"
    and g: "gid_ok (hdr_gid h)"
  defines "sf \<equiv> state_file_layout u h pd recs"
  shows "array_at (commitrels_at h) (count_of (hdr_ncommitrels h) * szrel) sf
           = Some (concat (pd_commitrels pd))"
    and "array_at (abortrels_at szrel h) (count_of (hdr_nabortrels h) * szrel) sf
           = Some (concat (pd_abortrels pd))"
    and "array_at (invalmsgs_at szrel h) (count_of (hdr_ninvalmsgs h) * szmsg) sf
           = Some (concat (pd_invalmsgs pd))"
    and "rdata_at children_at (hdr_nsubxacts h) sizeof_TransactionId sf
           = Some (xids_image (pd_children pd))"
    and "rdata_at (commitrels_at h) (hdr_ncommitrels h) szrel sf
           = Some (concat (pd_commitrels pd))"
    and "rdata_at (abortrels_at szrel h) (hdr_nabortrels h) szrel sf
           = Some (concat (pd_abortrels pd))"
    and "rdata_at (invalmsgs_at szrel h) (hdr_ninvalmsgs h) szmsg sf
           = Some (concat (pd_invalmsgs pd))"
proof -
  note d4 = state_file_layout_decode(4) [OF ok hc g, where u = u and recs = recs, folded sf_def]
  note d6 = state_file_layout_decode(6) [OF ok hc g, where u = u and recs = recs, folded sf_def]
  note d7 = state_file_layout_decode(7) [OF ok hc g, where u = u and recs = recs, folded sf_def]
  note d8 = state_file_layout_decode(8) [OF ok hc g, where u = u and recs = recs, folded sf_def]
  from ok have k: "length (pd_children pd) < 2 ^ 31" "length (pd_commitrels pd) < 2 ^ 31"
      "length (pd_abortrels pd) < 2 ^ 31" "length (pd_invalmsgs pd) < 2 ^ 31"
    by (simp_all add: prepare_data_ok_def)
  from hc have c: "count_of (hdr_nsubxacts h) = length (pd_children pd)"
      "count_of (hdr_ncommitrels h) = length (pd_commitrels pd)"
      "count_of (hdr_nabortrels h) = length (pd_abortrels pd)"
      "count_of (hdr_ninvalmsgs h) = length (pd_invalmsgs pd)"
    using k by (simp_all add: header_counts_def count_of_of_nat(1))
  from hc have nn: "0 \<le>s hdr_nsubxacts h" "0 \<le>s hdr_ncommitrels h"
      "0 \<le>s hdr_nabortrels h" "0 \<le>s hdr_ninvalmsgs h"
    using k by (simp_all add: header_counts_def count_of_of_nat(2))
  from ok have bd: "count_of (hdr_nsubxacts h) * sizeof_TransactionId \<le> MaxAllocSize"
      "count_of (hdr_ncommitrels h) * szrel \<le> MaxAllocSize"
      "count_of (hdr_nabortrels h) * szrel \<le> MaxAllocSize"
      "count_of (hdr_ninvalmsgs h) * szmsg \<le> MaxAllocSize"
    unfolding c by (simp_all add: prepare_data_ok_def)
  note rl = rdata_len_small [OF nn(1) bd(1)] rdata_len_small [OF nn(2) bd(2)]
    rdata_len_small [OF nn(3) bd(3)] rdata_len_small [OF nn(4) bd(4)]
  have a0: "array_at children_at (count_of (hdr_nsubxacts h) * sizeof_TransactionId) sf
           = Some (xids_image (pd_children pd))"
    by (rule array_at_slice [OF d4 slice_length [OF d4]])
  show a1: "array_at (commitrels_at h) (count_of (hdr_ncommitrels h) * szrel) sf
           = Some (concat (pd_commitrels pd))"
    by (rule array_at_slice [OF d6 slice_length [OF d6]])
  show a2: "array_at (abortrels_at szrel h) (count_of (hdr_nabortrels h) * szrel) sf
           = Some (concat (pd_abortrels pd))"
    by (rule array_at_slice [OF d7 slice_length [OF d7]])
  show a3: "array_at (invalmsgs_at szrel h) (count_of (hdr_ninvalmsgs h) * szmsg) sf
           = Some (concat (pd_invalmsgs pd))"
    by (rule array_at_slice [OF d8 slice_length [OF d8]])
  have z: "\<not> 0 <s n \<Longrightarrow> count_of n = 0" for n by (simp add: count_of_def)
  have e0: "xids_image (pd_children pd) = []" if "\<not> 0 <s hdr_nsubxacts h"
    using z [OF that] c(1) by (simp add: xids_image_def)
  have e1: "concat (pd_commitrels pd) = []" if "\<not> 0 <s hdr_ncommitrels h"
    using z [OF that] c(2) by simp
  have e2: "concat (pd_abortrels pd) = []" if "\<not> 0 <s hdr_nabortrels h"
    using z [OF that] c(3) by simp
  have e3: "concat (pd_invalmsgs pd) = []" if "\<not> 0 <s hdr_ninvalmsgs h"
    using z [OF that] c(4) by simp
  show "rdata_at children_at (hdr_nsubxacts h) sizeof_TransactionId sf
           = Some (xids_image (pd_children pd))"
    using a0 e0 by (simp add: rdata_at_def rl)
  show "rdata_at (commitrels_at h) (hdr_ncommitrels h) szrel sf
           = Some (concat (pd_commitrels pd))"
    using a1 e1 by (simp add: rdata_at_def rl)
  show "rdata_at (abortrels_at szrel h) (hdr_nabortrels h) szrel sf
           = Some (concat (pd_abortrels pd))"
    using a2 e2 by (simp add: rdata_at_def rl)
  show "rdata_at (invalmsgs_at szrel h) (hdr_ninvalmsgs h) szmsg sf
           = Some (concat (pd_invalmsgs pd))"
    using a3 e3 by (simp add: rdata_at_def rl)
qed

lemma Finish_cleanup_success:
  assumes dl: "array_at (if isCommit then commitrels_at hdr
                         else abortrels_at (sizeof_RelFileNodePendingDelete c) hdr)
                 (count_of (if isCommit then hdr_ncommitrels hdr else hdr_nabortrels hdr) *
                  sizeof_RelFileNodePendingDelete c) buf = Some rels"
    and sl: "array_at (invalmsgs_at (sizeof_RelFileNodePendingDelete c) hdr)
                 (count_of (hdr_ninvalmsgs hdr) * sizeof_SharedInvalidationMessage c) buf = Some msgs"
    and pr: "\<And>ph s. fst (ProcessRecords (callbacks_of c ph) buf
                        (records_at (sizeof_RelFileNodePendingDelete c)
                           (sizeof_SharedInvalidationMessage c) hdr) x s) = Inr ()"
    and mem: "gxact \<in> set (prepXacts (tp s))"
  shows "fst (Finish_cleanup c gxact isCommit x latestXid buf hdr s) = Inr True"
proof -
  have rm: "fst (RemoveGXact gxact t) = Inr ()" if "prepXacts t = prepXacts (tp s)" for t
    using RemoveGXact_ok [of gxact t] mem that by simp
  have split_fst: "(case p of (Inl e, s7) \<Rightarrow> f e s7 | (Inr u, s7) \<Rightarrow> g u s7) = g () (snd p)"
    if "fst p = Inr ()" for p :: "(error + unit) \<times> 'z" and f :: "error \<Rightarrow> 'z \<Rightarrow> 'y" and g
    using that by (cases p) (auto split: sum.splits)
  show ?thesis
    unfolding Finish_cleanup_def Let_def dl sl option.case
    by (subst split_fst [OF pr]) (subst split_fst [OF rm], simp_all)
qed

lemma RecordTransactionCommitPrepared_success:
  assumes "rdata_at r nr (sizeof_RelFileNodePendingDelete c) buf = Some d1"
    "rdata_at ch nch sizeof_TransactionId buf = Some d2"
    "rdata_at i ni (sizeof_SharedInvalidationMessage c) buf = Some d3"
    "xids_at ch nch buf = Some xs"
  shows "\<exists>s1. RecordTransactionCommitPrepared c x g nch ch nr r ni i buf s = (Inr (), s1) \<and>
              tp s1 = tp s"
  by (simp add: RecordTransactionCommitPrepared_def assms Let_def)

lemma RecordTransactionAbortPrepared_success:
  assumes "\<not> TransactionIdDidCommit (clog s) x"
    "rdata_at r nr (sizeof_RelFileNodePendingDelete c) buf = Some d1"
    "rdata_at ch nch sizeof_TransactionId buf = Some d2"
    "xids_at ch nch buf = Some xs"
  shows "\<exists>s1. RecordTransactionAbortPrepared c x nch ch nr r buf s = (Inr (), s1) \<and>
              tp s1 = tp s"
  by (simp add: RecordTransactionAbortPrepared_def assms Let_def)

lemma Finish_record_layout_success:
  assumes buf: "buf = state_file_layout u h pd recs"
    and ok: "prepare_data_ok (sizeof_RelFileNodePendingDelete c)
               (sizeof_SharedInvalidationMessage c) pd"
    and hc: "header_counts h pd" and g: "gid_ok (hdr_gid h)"
    and rs: "\<forall>r \<in> set recs. rmgr_record_ok r"
    and mem: "gxact \<in> set (prepXacts (tp s))"
    and nc: "isCommit \<or> \<not> TransactionIdDidCommit (clog s) x"
  shows "fst (Finish_record c gxact g' isCommit x buf s) = Inr True"
proof -
  let ?szrel = "sizeof_RelFileNodePendingDelete c"
  let ?szmsg = "sizeof_SharedInvalidationMessage c"
  note d0 = state_file_layout_decode [OF ok hc g]
  note rd = state_file_layout_reads [OF ok hc g, where u = u and recs = recs, folded buf]
  have d1: "\<not> length buf < sizeof_TwoPhaseFileHeader"
    unfolding buf using d0(1) [of u recs] by simp
  have d2: "read_TwoPhaseFileHeader buf = h"
    unfolding buf by (rule d0(2))
  have d3: "xids_at children_at (hdr_nsubxacts h) buf = Some (pd_children pd)"
    unfolding buf by (rule d0(3))
  have pr: "fst (ProcessRecords (callbacks_of c ph) buf (records_at ?szrel ?szmsg h) x s) = Inr ()"
    for ph s
    unfolding buf using d0(9) [OF rs, where cbs = "callbacks_of c ph" and x = x and s = s] by simp
  have dl: "array_at (if isCommit then commitrels_at h else abortrels_at ?szrel h)
                 (count_of (if isCommit then hdr_ncommitrels h else hdr_nabortrels h) * ?szrel) buf
              = Some (if isCommit then concat (pd_commitrels pd) else concat (pd_abortrels pd))"
    using rd(1,2) by simp
  note fc = Finish_cleanup_success [where hdr = h, OF dl rd(3) pr]
  obtain s1 where s1: "(if isCommit
        then RecordTransactionCommitPrepared c x g'
               (hdr_nsubxacts h) children_at (hdr_ncommitrels h) (commitrels_at h)
               (hdr_ninvalmsgs h) (invalmsgs_at ?szrel h) buf s
        else RecordTransactionAbortPrepared c x
               (hdr_nsubxacts h) children_at (hdr_nabortrels h) (abortrels_at ?szrel h)
               buf s) = (Inr (), s1)" and t1: "tp s1 = tp s"
  proof (cases isCommit)
    case True
    from RecordTransactionCommitPrepared_success [OF rd(5) rd(4) rd(7) d3]
    show ?thesis using that True by metis
  next
    case False
    with nc have "\<not> TransactionIdDidCommit (clog s) x" by simp
    from RecordTransactionAbortPrepared_success [OF this rd(6) rd(4) d3]
    show ?thesis using that False by metis
  qed
  have m: "gxact \<in> set (prepXacts (tp s1))" using mem t1 by simp
  show ?thesis
    unfolding Finish_record_def Let_def d2 d3 option.case s1 prod.case sum.case
    using d1 fc [OF m] by simp
qed

lemma valid_match_mem: "valid_match t g = Some x \<Longrightarrow> x \<in> set (prepXacts t)"
  by (auto simp: valid_match_def find_Some_iff)

lemma valid_match_valid:
  "valid_match t g = Some x \<Longrightarrow> valid (gxacts t x) \<and> gid (gxacts t x) = g"
  by (auto simp: valid_match_def find_Some_iff)

lemma Finish_success:
  assumes vm: "valid_match (tp s) g = Some gx"
    and ul: "locking_backend (gxacts (tp s) gx) = InvalidBackendId"
    and au: "user = owner (gxacts (tp s) gx) \<or> superuser_arg c user"
    and db: "MyDatabaseId (tp s) = databaseId (allProcs (tp s) (pgprocno (gxacts (tp s) gx))) \<or>
             Gp_role (tp s) = GP_ROLE_EXECUTE"
    and rd: "XLogReadRecord (xlog s) (prepare_begin_lsn (gxacts (tp s) gx)) = Some tfRecord"
    and buf: "xl_data tfRecord = state_file_layout u h pd recs"
    and ok: "prepare_data_ok (sizeof_RelFileNodePendingDelete c)
               (sizeof_SharedInvalidationMessage c) pd"
    and hc: "header_counts h pd" and g: "gid_ok (hdr_gid h)"
    and rs: "\<forall>r \<in> set recs. rmgr_record_ok r"
    and nc: "isCommit \<or> \<not> TransactionIdDidCommit (clog s)
               (proc_xid (allProcs (tp s) (pgprocno (gxacts (tp s) gx))))"
  shows "fst (FinishPreparedTransaction c user g isCommit raise s) = Inr True"
proof -
  let ?t = "(tp s)\<lparr>twophaseExitRegistered := True,
              gxacts := (gxacts (tp s))(gx := (gxacts (tp s) gx)\<lparr>locking_backend := MyBackendId (tp s)\<rparr>),
              MyLockedGxact := Some gx\<rparr>"
  have l: "LockGXact (superuser_arg c) g user raise (tp s) = (Inr (Some gx), ?t)"
    using vm ul au db by (auto simp: LockGXact_char LockGXact_decide_def)
  let ?s1 = "s\<lparr>tp := ?t\<rparr>"
  have mem: "gx \<in> set (prepXacts (tp ?s1))"
    using valid_match_mem [OF vm] by simp
  have nc': "isCommit \<or> \<not> TransactionIdDidCommit (clog ?s1)
               (proc_xid (allProcs (tp ?s1) (pgprocno (gxacts (tp ?s1) gx))))"
    using nc by simp
  have rd': "XLogReadRecord (xlog ?s1) (prepare_begin_lsn (gxacts (tp ?s1) gx)) = Some tfRecord"
    using rd by simp
  note fr = Finish_record_layout_success [OF buf ok hc g rs mem nc', where g' = g]
  show ?thesis
    unfolding FinishPreparedTransaction_def l prod.case sum.case option.case Let_def rd'
    by (rule fr)
qed

lemma sample_finish_succeeds:
  "fst (FinishPreparedTransaction sample_collab 10 ''t1'' isCommit raise sample_finishable) = Inr True"
proof (rule Finish_success [where gx = 1 and pd = sample_data and recs = sample_records
      and u = "uninit sample_collab"
      and h = "sample_header\<lparr>hdr_total_len := of_nat (length sample_file) + of_nat sizeof_pg_crc32\<rparr>"
      and tfRecord = "\<lparr>xl_info = XLOG_XACT_PREPARE, xl_data = sample_file\<rparr>"])
  show "valid_match (tp sample_finishable) ''t1'' = Some 1"
    by (rule sample_finishable_entry)
  show "locking_backend (gxacts (tp sample_finishable) 1) = InvalidBackendId"
    by (rule sample_finishable_entry)
  show "10 = owner (gxacts (tp sample_finishable) 1) \<or> superuser_arg sample_collab 10"
    unfolding sample_finishable_entry by simp
  show "MyDatabaseId (tp sample_finishable) =
          databaseId (allProcs (tp sample_finishable) (pgprocno (gxacts (tp sample_finishable) 1))) \<or>
        Gp_role (tp sample_finishable) = GP_ROLE_EXECUTE"
    unfolding sample_finishable_entry by simp
  show "XLogReadRecord (xlog sample_finishable) (prepare_begin_lsn (gxacts (tp sample_finishable) 1)) =
          Some \<lparr>xl_info = XLOG_XACT_PREPARE, xl_data = sample_file\<rparr>"
    unfolding sample_finishable_entry(8) sample_finishable_tp(2) by (rule sample_xlog_read)
  show "xl_data \<lparr>xl_info = XLOG_XACT_PREPARE, xl_data = sample_file\<rparr> =
          state_file_layout (uninit sample_collab)
            (sample_header\<lparr>hdr_total_len := of_nat (length sample_file) + of_nat sizeof_pg_crc32\<rparr>)
            sample_data sample_records"
    using sample_file_layout by simp
  show "prepare_data_ok (sizeof_RelFileNodePendingDelete sample_collab)
          (sizeof_SharedInvalidationMessage sample_collab) sample_data"
    using sample_data_ok by (simp add: sample_collab_def)
  show "header_counts
          (sample_header\<lparr>hdr_total_len := of_nat (length sample_file) + of_nat sizeof_pg_crc32\<rparr>)
          sample_data"
    using StartPrepare_header_counts [of "gxacts (sample_prepared 5) 1"
        "allProcs (sample_prepared 5) (pgprocno (gxacts (sample_prepared 5) 1))" sample_data]
    unfolding sample_header_def [symmetric] by (simp add: header_counts_def)
  show "gid_ok (hdr_gid
          (sample_header\<lparr>hdr_total_len := of_nat (length sample_file) + of_nat sizeof_pg_crc32\<rparr>))"
    using sample_gid_ok by (simp add: sample_header_gid)
  show "\<forall>r \<in> set sample_records. rmgr_record_ok r"
    by (rule sample_records_ok)
  show "isCommit \<or>
        \<not> TransactionIdDidCommit (clog sample_finishable)
            (proc_xid (allProcs (tp sample_finishable) (pgprocno (gxacts (tp sample_finishable) 1))))"
    unfolding sample_finishable_tp by (simp add: TransactionIdDidCommit_def)
qed

lemma sample_finishable_arrays:
  "pgprocno (gxacts (tp sample_finishable) 1) \<in> set (procArray (tp sample_finishable))"
  "distinct (procArray (tp sample_finishable))"
  "distinct (prepXacts (tp sample_finishable))"
  unfolding sample_finishable_tp by code_simp+


subsection \<open>The order of the steps of a finish\<close>

text \<open>
  Claim C1. Let \<open>FinishPreparedTransaction\<close> be called for a GID that a valid entry
  carries, the dummy process of the entry being in the ProcArray, and neither the
  ProcArray nor the table listing anything twice. Every step of the call is recorded
  with the table, the log and the status store as they are right after it. Then, for a
  commit and for a rollback, whether the call comes to its end or stops with an error:
  the steps are in the order of their stages (the outcome record is inserted, then
  flushed, then the status stores are updated, then the backend waits for the replica,
  then the dummy process leaves the ProcArray, and everything else comes after that);
  each step names this transaction, its dummy process or its entry and the recorded
  state shows what it did; and in the recorded states the outcome record, of the kind
  asked for and at the former end of the log, is flushed at every step from the flush on
  and the status store is untouched up to the flush; the status of the transaction is set
  from the step that sets it on, while the dummy process is still in the ProcArray; the
  dummy process is gone when the entry is made invalid and at every step after that:
  when the files are dropped, the invalidation messages are sent, the callbacks run and
  the entry leaves the table; the entry is valid up to the step that makes it invalid and
  in the table up to the step that removes it. When the call returns \<open>true\<close>, all of
  this did happen: the outcome record, which begins with the fixed part for this
  transaction id and GID, is in the log and flushed, the status is set, the dummy
  process is gone, the entry is invalid, out of the table and on the free list, the
  transaction is out of the recovery map, and the steps that do it are among the
  recorded ones.
\<close>

theorem FinishPreparedTransaction_order:
  fixes c user g isCommit raise s gxact
  defines "p \<equiv> pgprocno (gxacts (tp s) gxact)"
  defines "x \<equiv> proc_xid (allProcs (tp s) p)"
    and "b \<equiv> xlog_insert_pos (xlog s)"
    and "s' \<equiv> snd (FinishPreparedTransaction c user g isCommit raise s)"
  assumes vm: "valid_match (tp s) g = Some gxact"
    and pa: "p \<in> set (procArray (tp s))" "distinct (procArray (tp s))"
    and dp: "distinct (prepXacts (tp s))"
  shows "length (new_snapshots s s') = length (new_events s s') \<and>
         sorted (map finish_stage (new_events s s')) \<and>
         list_all (finish_step_ok isCommit x p gxact b (clog s) (procArray (tp s)))
           (new_steps s s') \<and>
         (fst (FinishPreparedTransaction c user g isCommit raise s) = Inr True \<longrightarrow>
            outcome_durable isCommit b (xlog s') \<and>
            outcome_names c isCommit x g b (xlog s') \<and>
            status_set isCommit x (clog s') \<and>
            shadow_gone p (tp s') \<and> entry_invalid gxact (tp s') \<and> entry_removed gxact (tp s') \<and>
            gxact \<in> set (freeGXacts (tp s')) \<and> x \<notin> fst ` set (recover_map s') \<and>
            (\<exists>l. EvXLogInsert (outcome_kind isCommit) l \<in> set (new_events s s') \<and>
                 EvXLogFlush l \<in> set (new_events s s')) \<and>
            (\<exists>xs. (if isCommit then EvTransactionIdCommitTree x xs
                    else EvTransactionIdAbortTree x xs) \<in> set (new_events s s')) \<and>
            (\<exists>l. EvProcArrayRemove p l \<in> set (new_events s s')) \<and>
            EvGXactInvalidated gxact \<in> set (new_events s s') \<and>
            (\<exists>rels n. EvDropRelationFiles rels n \<in> set (new_events s s')) \<and>
            (\<exists>msgs n. EvSendSharedInvalidMessages msgs n \<in> set (new_events s s')) \<and>
            EvRemoveGXact gxact \<in> set (new_events s s'))"
proof -
  define Q where "Q = finish_step_ok isCommit x p gxact b (clog s) (procArray (tp s))"
  define res where "res = fst (FinishPreparedTransaction c user g isCommit raise s)"
  have run: "FinishPreparedTransaction c user g isCommit raise s = (res, s')"
    by (simp add: res_def s'_def)
  define t0 where "t0 = (tp s)\<lparr>twophaseExitRegistered := True\<rparr>"
  define t1 where "t1 = t0\<lparr>gxacts := (gxacts t0)(gxact := (gxacts t0 gxact)
                               \<lparr>locking_backend := MyBackendId t0\<rparr>),
                         MyLockedGxact := Some gxact\<rparr>"
  define s1 where "s1 = s\<lparr>tp := t1\<rparr>"
  from valid_match_mem [OF vm] valid_match_valid [OF vm]
  have en: "gxact \<in> set (prepXacts (tp s))" "valid (gxacts (tp s) gxact)" by simp_all
  have f1: "events s1 = events s" "snapshots s1 = snapshots s" "xlog s1 = xlog s"
    "clog s1 = clog s" "procArray (tp s1) = procArray (tp s)" "prepXacts (tp s1) = prepXacts (tp s)"
    "valid (gxacts (tp s1) gxact)" "pgprocno (gxacts (tp s1) gxact) = p"
    "proc_xid (allProcs (tp s1) p) = x"
    using en by (simp_all add: s1_def t1_def t0_def p_def x_def)
  have lg: "LockGXact (superuser_arg c) g user raise (tp s) =
      (case LockGXact_decide (superuser_arg c) user t0 gxact of
         (Inl e, s') \<Rightarrow> (Inl e, s') | (Inr y, s') \<Rightarrow> (Inr (Some y), s'))"
    using vm by (simp add: LockGXact_char t0_def)
  have dec: "(\<exists>e. LockGXact_decide (superuser_arg c) user t0 gxact = (Inl e, t0)) \<or>
      LockGXact_decide (superuser_arg c) user t0 gxact = (Inr gxact, t1)"
    by (simp add: LockGXact_decide_def t1_def)
  then consider (err) e where "LockGXact (superuser_arg c) g user raise (tp s) = (Inl e, t0)"
    | (ok) "LockGXact (superuser_arg c) g user raise (tp s) = (Inr (Some gxact), t1)"
    unfolding lg by auto
  then have main: "finish_run Q 0 5 s s' \<and>
         (res = Inr True \<longrightarrow>
            outcome_durable isCommit b (xlog s') \<and>
            outcome_names c isCommit x g b (xlog s') \<and>
            status_set isCommit x (clog s') \<and>
            shadow_gone p (tp s') \<and> entry_invalid gxact (tp s') \<and> entry_removed gxact (tp s') \<and>
            gxact \<in> set (freeGXacts (tp s')) \<and> x \<notin> fst ` set (recover_map s') \<and>
            (\<exists>l. EvXLogInsert (outcome_kind isCommit) l \<in> set (new_events s s') \<and>
                 EvXLogFlush l \<in> set (new_events s s')) \<and>
            (\<exists>xs. (if isCommit then EvTransactionIdCommitTree x xs
                    else EvTransactionIdAbortTree x xs) \<in> set (new_events s s')) \<and>
            (\<exists>l. EvProcArrayRemove p l \<in> set (new_events s s')) \<and>
            EvGXactInvalidated gxact \<in> set (new_events s s') \<and>
            (\<exists>rels n. EvDropRelationFiles rels n \<in> set (new_events s s')) \<and>
            (\<exists>msgs n. EvSendSharedInvalidMessages msgs n \<in> set (new_events s s')) \<and>
            EvRemoveGXact gxact \<in> set (new_events s s'))"
  proof cases
    case err
    with run have "s' = s\<lparr>tp := t0\<rparr>" "res = Inl e"
      by (simp_all add: FinishPreparedTransaction_def)
    then have "events s' = events s" "snapshots s' = snapshots s" "res \<noteq> Inr True"
      by simp_all
    then show ?thesis using finish_run_nil [of s' s Q 0 5] by simp
  next
    case ok
    have unfF: "FinishPreparedTransaction c user g isCommit raise s =
        (case XLogReadRecord (xlog s1) (prepare_begin_lsn (gxacts (tp s1) gxact)) of
           None \<Rightarrow> (Inl CorruptRecord, s1)
         | Some tfRecord \<Rightarrow> Finish_record c gxact g isCommit x (xl_data tfRecord) s1)"
      unfolding FinishPreparedTransaction_def ok prod.case sum.case option.case Let_def
        s1_def [symmetric] f1(8) f1(9) ..
    show ?thesis
    proof (cases "XLogReadRecord (xlog s1) (prepare_begin_lsn (gxacts (tp s1) gxact))")
      case None
      with run unfF have "s' = s1" "res = Inl CorruptRecord"
        by simp_all
      then have "events s' = events s" "snapshots s' = snapshots s" "res \<noteq> Inr True"
        using f1 by simp_all
      then show ?thesis using finish_run_nil [of s' s Q 0 5] by simp
    next
      case (Some tfRecord)
      with run unfF have fr: "Finish_record c gxact g isCommit x (xl_data tfRecord) s1 = (res, s')"
        by simp
      note k = Finish_record_steps [OF fr f1(8) [symmetric], unfolded f1]
      have ne: "new_events s1 s' = new_events s s'" "new_snapshots s1 s' = new_snapshots s s'"
        "new_steps s1 s' = new_steps s s'"
        by (simp_all add: new_events_def new_snapshots_def new_steps_def f1)
      have k': "finish_run Q 0 5 s1 s' \<and>
         (res = Inr True \<longrightarrow>
            outcome_durable isCommit b (xlog s') \<and>
            outcome_names c isCommit x g b (xlog s') \<and>
            status_set isCommit x (clog s') \<and>
            shadow_gone p (tp s') \<and> entry_invalid gxact (tp s') \<and> entry_removed gxact (tp s') \<and>
            gxact \<in> set (freeGXacts (tp s')) \<and> x \<notin> fst ` set (recover_map s') \<and>
            (\<exists>l. EvXLogInsert (outcome_kind isCommit) l \<in> set (new_events s s') \<and>
                 EvXLogFlush l \<in> set (new_events s s')) \<and>
            (\<exists>xs. (if isCommit then EvTransactionIdCommitTree x xs
                    else EvTransactionIdAbortTree x xs) \<in> set (new_events s s')) \<and>
            (\<exists>l. EvProcArrayRemove p l \<in> set (new_events s s')) \<and>
            EvGXactInvalidated gxact \<in> set (new_events s s') \<and>
            (\<exists>rels n. EvDropRelationFiles rels n \<in> set (new_events s s')) \<and>
            (\<exists>msgs n. EvSendSharedInvalidMessages msgs n \<in> set (new_events s s')) \<and>
            EvRemoveGXact gxact \<in> set (new_events s s'))"
        unfolding Q_def b_def ne [symmetric]
        using pa dp en f1 by (intro k) simp_all
      have "finish_run Q 0 5 s s'"
        using conjunct1 [OF k'] unfolding finish_run_def f1 .
      with conjunct2 [OF k'] show ?thesis by blast
    qed
  qed
  note fe = finish_run_new_events [OF conjunct1 [OF main]]
  show ?thesis
    unfolding Q_def [symmetric] res_def [symmetric]
    using fe conjunct2 [OF main] by blast
qed

text \<open>
  The sample transaction is finished by its owner, as a commit and as a rollback.
\<close>

theorem FinishPreparedTransaction_order_witness:
  "valid_match (tp sample_finishable) ''t1'' = Some 1 \<and>
   pgprocno (gxacts (tp sample_finishable) 1) \<in> set (procArray (tp sample_finishable)) \<and>
   distinct (procArray (tp sample_finishable)) \<and>
   distinct (prepXacts (tp sample_finishable)) \<and>
   fst (FinishPreparedTransaction sample_collab 10 ''t1'' True True sample_finishable) = Inr True \<and>
   fst (FinishPreparedTransaction sample_collab 10 ''t1'' False True sample_finishable) = Inr True \<and>
   list_all
     (finish_step_ok True 100 (pgprocno (gxacts (tp sample_finishable) 1)) 1
        (xlog_insert_pos (xlog sample_finishable)) (clog sample_finishable)
        (procArray (tp sample_finishable)))
     (new_steps sample_finishable
        (snd (FinishPreparedTransaction sample_collab 10 ''t1'' True True sample_finishable))) \<and>
   sorted (map finish_stage
     (new_events sample_finishable
        (snd (FinishPreparedTransaction sample_collab 10 ''t1'' True True sample_finishable)))) \<and>
   outcome_durable True (xlog_insert_pos (xlog sample_finishable))
     (xlog (snd (FinishPreparedTransaction sample_collab 10 ''t1'' True True sample_finishable))) \<and>
   status_set True 100
     (clog (snd (FinishPreparedTransaction sample_collab 10 ''t1'' True True sample_finishable))) \<and>
   entry_removed 1
     (tp (snd (FinishPreparedTransaction sample_collab 10 ''t1'' True True sample_finishable))) \<and>
   list_all
     (finish_step_ok False 100 (pgprocno (gxacts (tp sample_finishable) 1)) 1
        (xlog_insert_pos (xlog sample_finishable)) (clog sample_finishable)
        (procArray (tp sample_finishable)))
     (new_steps sample_finishable
        (snd (FinishPreparedTransaction sample_collab 10 ''t1'' False True sample_finishable))) \<and>
   status_set False 100
     (clog (snd (FinishPreparedTransaction sample_collab 10 ''t1'' False True sample_finishable)))"
proof -
  note vm = sample_finishable_entry(1)
  note ar = sample_finishable_arrays
  note cm = FinishPreparedTransaction_order [where c = sample_collab and user = 10
      and isCommit = True and raise = True, OF vm ar, unfolded sample_finishable_entry(6)]
  note ab = FinishPreparedTransaction_order [where c = sample_collab and user = 10
      and isCommit = False and raise = True, OF vm ar, unfolded sample_finishable_entry(6)]
  note sc = sample_finish_succeeds [of True True]
  note sa = sample_finish_succeeds [of False True]
  show ?thesis
    using vm ar sc sa cm ab by blast
qed

subsection \<open>The prescan of the prepare records\<close>










lemma running_minimum_Nil [simp]: "running_minimum c r [] = r"
  by (simp add: running_minimum_def)











end
